theory Spec2Isabelle
  imports Complex_Main "HOL-Library.Sublist"
begin

section \<open>Python values shared by the scripts\<close>

text \<open>
  Audio samples are only copied, compared with nothing and never computed with in the
  recorder and the player, so a sample is a real number. An exception that the source
  can raise is a value of \<open>py_error\<close>; a function that can raise returns
  \<open>py_error + 'a\<close> with \<open>Inl\<close> for the exception.
\<close>

type_synonym sample = real

datatype py_error = IndexError | ValueError | TypeError | OSError | RuntimeError

text \<open>
  Python's builtin \<open>min(a, b)\<close> returns \<open>a\<close> unless \<open>b < a\<close>, and \<open>max(a, b)\<close>
  returns \<open>a\<close> unless \<open>b > a\<close>.
\<close>

definition py_min :: "'a::linorder \<Rightarrow> 'a \<Rightarrow> 'a" where
  "py_min a b = (if b < a then b else a)"

definition py_max :: "'a::linorder \<Rightarrow> 'a \<Rightarrow> 'a" where
  "py_max a b = (if a < b then b else a)"

section \<open>audio\_example.py: SineWaveGenerator\<close>

record sine_wave_generator =
  frequency :: real
  gen_sample_rate :: real
  amplitude :: real
  is_playing :: bool
  phase :: int

text \<open>\<^verbatim>\<open>self.amplitude = max(0, min(1, amplitude))\<close>\<close>

definition set_amplitude :: "real \<Rightarrow> sine_wave_generator \<Rightarrow> sine_wave_generator" where
  "set_amplitude a g = g\<lparr>amplitude := py_max 0 (py_min 1 a)\<rparr>"

definition set_frequency :: "real \<Rightarrow> sine_wave_generator \<Rightarrow> sine_wave_generator" where
  "set_frequency f g = g\<lparr>frequency := f\<rparr>"

text \<open>The generator of the script's example: \<^verbatim>\<open>SineWaveGenerator(frequency=440, amplitude=0.3)\<close>.\<close>

definition example_generator :: sine_wave_generator where
  "example_generator =
     \<lparr>frequency = 440, gen_sample_rate = 44100, amplitude = 3 / 10, is_playing = False, phase = 0\<rparr>"

section \<open>plotter\_example.py: SineWaveData\<close>

record sine_wave_data =
  sample_rate :: real

text \<open>
  \<^verbatim>\<open>int(x)\<close> truncates towards zero; \<^verbatim>\<open>np.zeros(n)\<close> raises ValueError on a negative
  length; \<^verbatim>\<open>np.arange(n)\<close> is empty for \<open>n \<le> 0\<close>.
\<close>

definition py_int :: "real \<Rightarrow> int" where
  "py_int x = (if 0 \<le> x then \<lfloor>x\<rfloor> else \<lceil>x\<rceil>)"

definition np_zeros :: "int \<Rightarrow> py_error + real list" where
  "np_zeros n = (if n < 0 then Inl ValueError else Inr (replicate (nat n) 0))"

definition np_arange :: "int \<Rightarrow> real list" where
  "np_arange n = map real [0..<nat n]"

text \<open>
  \<^verbatim>\<open>
  num_samples = int(self.sample_rate * duration)
  t = np.arange(num_samples) / self.sample_rate
  return amplitude * np.sin(2 * np.pi * frequency * t + phase)
  \<close>
\<close>

definition generate :: "sine_wave_data \<Rightarrow> real \<Rightarrow> real \<Rightarrow> real \<Rightarrow> real \<Rightarrow> real list" where
  "generate g freq amp duration ph =
     (let num_samples = py_int (sample_rate g * duration);
          t = map (\<lambda>k. k / sample_rate g) (np_arange num_samples)
      in map (\<lambda>x. amp * sin (2 * pi * freq * x + ph)) t)"

text \<open>
  \<^verbatim>\<open>result += wave\<close> on two arrays: elementwise when the shapes agree, broadcast when
  the right one has a single element, ValueError otherwise.
\<close>

definition np_iadd :: "real list \<Rightarrow> real list \<Rightarrow> py_error + real list" where
  "np_iadd result wave =
     (if length wave = length result then Inr (map2 (+) result wave)
      else if length wave = 1 then Inr (map (\<lambda>r. r + hd wave) result)
      else Inl ValueError)"

text \<open>The loop \<^verbatim>\<open>for freq, amp in zip(frequencies, amplitudes): result += self.generate(freq, amp, duration)\<close>.\<close>

fun accumulate_waves ::
  "sine_wave_data \<Rightarrow> real \<Rightarrow> (real \<times> real) list \<Rightarrow> real list \<Rightarrow> py_error + real list" where
  "accumulate_waves g duration [] result = Inr result"
| "accumulate_waves g duration ((freq, amp) # rest) result =
     (case np_iadd result (generate g freq amp duration 0) of
        Inl e \<Rightarrow> Inl e
      | Inr result' \<Rightarrow> accumulate_waves g duration rest result')"

text \<open>
  \<^verbatim>\<open>zip(frequencies, amplitudes)\<close> calls \<^verbatim>\<open>iter\<close> on both arguments when it is built:
  with \<^verbatim>\<open>amplitudes\<close> equal to \<^verbatim>\<open>None\<close> it raises TypeError before the first pair.
\<close>

definition py_zip :: "'a list \<Rightarrow> 'b list option \<Rightarrow> py_error + ('a \<times> 'b) list" where
  "py_zip xs yso = (case yso of None \<Rightarrow> Inl TypeError | Some ys \<Rightarrow> Inr (zip xs ys))"

text \<open>
  \<^verbatim>\<open>
  def generate_multiple_frequencies(self, frequencies, amplitudes=None, duration=1):
      if amplitudes is None:
          aplitudes = [1] * len(frequencies)
      result = np.zeros(int(self.sample_rate * duration))
      for freq, amp in zip(frequencies, amplitudes):
          result += self.generate(freq, amp, duration)
      return result
  \<close>
  The default branch binds the local \<^verbatim>\<open>aplitudes\<close>, which nothing reads;
  \<^verbatim>\<open>amplitudes\<close> is what \<^verbatim>\<open>zip\<close> receives.
\<close>

definition generate_multiple_frequencies ::
  "sine_wave_data \<Rightarrow> real list \<Rightarrow> real list option \<Rightarrow> real \<Rightarrow> py_error + real list" where
  "generate_multiple_frequencies g frequencies amplitudes duration =
     (let aplitudes = (if amplitudes = None then replicate (length frequencies) (1::real) else [])
      in case np_zeros (py_int (sample_rate g * duration)) of
           Inl e \<Rightarrow> Inl e
         | Inr result \<Rightarrow>
             (case py_zip frequencies amplitudes of
                Inl e \<Rightarrow> Inl e
              | Inr pairs \<Rightarrow> accumulate_waves g duration pairs result))"

section \<open>jack\_play.py: JackWavPlayer\<close>

text \<open>
  The samples of the file are a two-dimensional array (frames by channels), rectangular by
  its type: its shape and a cell function. \<open>len(audio_data)\<close> is \<open>nrows\<close>.
\<close>

record nd_array =
  nrows :: nat
  ncols :: nat
  cell :: "nat \<Rightarrow> nat \<Rightarrow> sample"

text \<open>
  What \<^verbatim>\<open>sf.read\<close> returns for a readable file: a one-dimensional array for a mono file,
  a two-dimensional one otherwise.
\<close>

datatype wav_array = Array1 "sample list" | Array2 nd_array

record jack_wav_player =
  audio_data :: nd_array
  file_sample_rate :: nat
  channels :: nat
  position :: int
  playing :: bool
  output_ports :: nat
  printed :: "string list"

text \<open>
  \<^verbatim>\<open>load_wav\<close> for a file that \<^verbatim>\<open>sf.read\<close> could read (otherwise the script exits):
  a mono array is reshaped to one column, \<open>channels\<close> is the second dimension.
  \<^verbatim>\<open>__init__\<close> then registers one output port for each channel, with the cursor at 0
  and playback off. \<open>printed\<close> is the list of the lines printed by the callback and the
  commands; the lines of \<^verbatim>\<open>load_wav\<close> are left out.
\<close>

definition load_wav :: "wav_array \<Rightarrow> nd_array \<times> nat" where
  "load_wav w =
     (case w of
        Array1 xs \<Rightarrow> (\<lparr>nrows = length xs, ncols = 1, cell = (\<lambda>i j. xs ! i)\<rparr>, 1)
      | Array2 a \<Rightarrow> (a, ncols a))"

definition new_player :: "wav_array \<Rightarrow> nat \<Rightarrow> jack_wav_player" where
  "new_player w rate =
     (let (a, ch) = load_wav w
      in \<lparr>audio_data = a, file_sample_rate = rate, channels = ch, position = 0,
          playing = False, output_ports = ch, printed = []\<rparr>)"

text \<open>
  A slice \<^verbatim>\<open>a[lo:hi]\<close> of a sequence of length \<open>n\<close>: a negative bound counts from the
  end, and both bounds are clipped to the sequence. The result is the list of the indices
  it selects.
\<close>

definition slice_indices :: "nat \<Rightarrow> int \<Rightarrow> int \<Rightarrow> nat list" where
  "slice_indices n lo hi =
     (let clip = (\<lambda>i. if i < 0 then max 0 (i + int n) else min i (int n))
      in [nat (clip lo)..<nat (clip hi)])"

text \<open>
  \<^verbatim>\<open>self.audio_data[lo:hi, ch]\<close>: the rows of the slice, at column \<open>ch\<close>; a negative column
  counts from the last one, and a column outside the array raises IndexError.
\<close>

definition column_slice :: "nd_array \<Rightarrow> int \<Rightarrow> int \<Rightarrow> int \<Rightarrow> py_error + sample list" where
  "column_slice a lo hi ch =
     (let j = (if ch < 0 then ch + int (ncols a) else ch)
      in if 0 \<le> j \<and> j < int (ncols a)
         then Inr (map (\<lambda>i. cell a i (nat j)) (slice_indices (nrows a) lo hi))
         else Inl IndexError)"

text \<open>
  \<^verbatim>\<open>output_buffer[:k] = src\<close> for a target slice of \<open>m\<close> frames: the values of \<open>src\<close> when it
  has \<open>m\<close> elements, its single element repeated when it has one, ValueError otherwise.
\<close>

definition assign_slice :: "nat \<Rightarrow> sample list \<Rightarrow> py_error + sample list" where
  "assign_slice m src =
     (if length src = m then Inr src
      else if length src = 1 then Inr (replicate m (hd src))
      else Inl ValueError)"

text \<open>
  The body of the loop over the output ports, for port number \<open>ch\<close>. The port's buffer has
  \<open>frames\<close> frames; the result is its content after the body.
  \<^verbatim>\<open>
  if frames_to_play > 0:
      if ch < self.channels:
          output_buffer[:frames_to_play] = self.audio_data[self.position:self.position + frames_to_play, ch]
      else:
          output_buffer[:frames_to_play] = self.audio_data[self.position:self.position + frames_to_play, -1]
      if frames_to_play < frames:
          output_buffer[frames_to_play:].fill(0)
  else:
      output_buffer.fill(0)
  \<close>
  \<open>frames_to_play\<close> is at most \<open>frames\<close>, so the target slice has \<open>frames_to_play\<close> frames
  and the rest of the buffer, \<open>frames - frames_to_play\<close> frames, is what \<open>fill(0)\<close> zeroes.
\<close>

definition fill_port :: "jack_wav_player \<Rightarrow> nat \<Rightarrow> int \<Rightarrow> nat \<Rightarrow> py_error + sample list" where
  "fill_port s frames frames_to_play ch =
     (if 0 < frames_to_play then
        (case column_slice (audio_data s) (position s) (position s + frames_to_play)
                (if ch < channels s then int ch else - 1) of
           Inl e \<Rightarrow> Inl e
         | Inr src \<Rightarrow>
             (case assign_slice (nat frames_to_play) src of
                Inl e \<Rightarrow> Inl e
              | Inr copied \<Rightarrow> Inr (copied @ replicate (frames - nat frames_to_play) 0)))
      else Inr (replicate frames 0))"

text \<open>The loop \<^verbatim>\<open>for ch, port in enumerate(self.output_ports)\<close>; an exception ends it.\<close>

fun fill_ports ::
  "jack_wav_player \<Rightarrow> nat \<Rightarrow> int \<Rightarrow> nat list \<Rightarrow> py_error + sample list list" where
  "fill_ports s frames frames_to_play [] = Inr []"
| "fill_ports s frames frames_to_play (ch # chs) =
     (case fill_port s frames frames_to_play ch of
        Inl e \<Rightarrow> Inl e
      | Inr buf \<Rightarrow>
          (case fill_ports s frames frames_to_play chs of
             Inl e \<Rightarrow> Inl e
           | Inr bufs \<Rightarrow> Inr (buf # bufs)))"

text \<open>
  \<^verbatim>\<open>process_callback(self, frames)\<close> of the player. The result is the player after the
  call and the content of the buffer of each output port.
\<close>

definition process_callback_player ::
  "nat \<Rightarrow> jack_wav_player \<Rightarrow> py_error + jack_wav_player \<times> sample list list" where
  "process_callback_player frames s =
     (if \<not> playing s then Inr (s, replicate (output_ports s) (replicate frames 0))
      else
        let frames_available = int (nrows (audio_data s)) - position s;
            frames_to_play = py_min (int frames) frames_available
        in case fill_ports s frames frames_to_play [0..<output_ports s] of
             Inl e \<Rightarrow> Inl e
           | Inr bufs \<Rightarrow>
               let s1 = s\<lparr>position := position s + frames_to_play\<rparr>
               in if int (nrows (audio_data s1)) \<le> position s1
                  then Inr (s1\<lparr>playing := False,
                              printed := printed s1 @ [''Playback finished'']\<rparr>, bufs)
                  else Inr (s1, bufs))"

definition play :: "jack_wav_player \<Rightarrow> jack_wav_player" where
  "play s = s\<lparr>position := 0, playing := True, printed := printed s @ [''Starting playback...'']\<rparr>"

definition stop :: "jack_wav_player \<Rightarrow> jack_wav_player" where
  "stop s = s\<lparr>playing := False, printed := printed s @ [''Stopping playback...'']\<rparr>"

definition pause :: "jack_wav_player \<Rightarrow> jack_wav_player" where
  "pause s = s\<lparr>playing := False, printed := printed s @ [''Pausing playback...'']\<rparr>"

definition resume :: "jack_wav_player \<Rightarrow> jack_wav_player" where
  "resume s = s\<lparr>playing := True, printed := printed s @ [''Resuming playback...'']\<rparr>"

definition shutdown_callback :: "jack_wav_player \<Rightarrow> jack_wav_player" where
  "shutdown_callback s = s\<lparr>playing := False, printed := printed s @ [''JACK shutdown'']\<rparr>"

text \<open>
  A playback session is what happens to the player: the audio server calls
  \<open>process_callback\<close> with a frame count, the user's commands call the other methods.
  The run of a list of such events returns the final player and the buffers of each
  callback, in order; an exception in a callback ends the run.
\<close>

datatype player_event = Callback nat | Play | Stop | Pause | Resume | Shutdown

fun run_player ::
  "player_event list \<Rightarrow> jack_wav_player \<Rightarrow> py_error + jack_wav_player \<times> sample list list list" where
  "run_player [] s = Inr (s, [])"
| "run_player (Callback frames # evs) s =
     (case process_callback_player frames s of
        Inl e \<Rightarrow> Inl e
      | Inr (s', bufs) \<Rightarrow>
          (case run_player evs s' of
             Inl e \<Rightarrow> Inl e
           | Inr (s'', outs) \<Rightarrow> Inr (s'', bufs # outs)))"
| "run_player (Play # evs) s = run_player evs (play s)"
| "run_player (Stop # evs) s = run_player evs (stop s)"
| "run_player (Pause # evs) s = run_player evs (pause s)"
| "run_player (Resume # evs) s = run_player evs (resume s)"
| "run_player (Shutdown # evs) s = run_player evs (shutdown_callback s)"

text \<open>How many times the player has reported the end of the playback.\<close>

definition finished_reports :: "jack_wav_player \<Rightarrow> nat" where
  "finished_reports s = count_list (printed s) ''Playback finished''"

text \<open>
  What \<^verbatim>\<open>__init__\<close> establishes and every method keeps: the cursor is inside the source,
  there is one output port for each channel, and \<open>channels\<close> is the second dimension of
  the array.
\<close>

definition player_inv :: "jack_wav_player \<Rightarrow> bool" where
  "player_inv s \<longleftrightarrow>
     0 \<le> position s \<and> position s \<le> int (nrows (audio_data s))
     \<and> output_ports s = channels s \<and> channels s = ncols (audio_data s)"

section \<open>jack\_record.py: JackAudioSink\<close>

text \<open>
  One block of captured audio, as the callback copies it: the array of the single input
  port when the sink is mono, otherwise the port arrays stacked as columns (a list of
  frames, each with one sample for each port).
\<close>

datatype buffer = Mono "sample list" | Stacked "sample list list"

text \<open>
  What the sink does to the world outside its own attributes, in the order it happens:
  a line printed, a buffer put on the queue by the callback, a buffer taken from the queue
  by the writer thread, a buffer written to the output file, the output file closed.
\<close>

datatype effect =
    Print string
  | Pushed buffer
  | Popped buffer
  | Written buffer
  | Closed string

text \<open>A \<^verbatim>\<open>threading.Thread\<close>: \<^verbatim>\<open>is_alive()\<close> holds in the state \<open>Alive\<close> only.\<close>

datatype thread_state = Unstarted | Alive | Exited

text \<open>
  The attributes of a \<^verbatim>\<open>JackAudioSink\<close> that its methods read or assign, and the effects
  so far. \<open>audio_queue\<close> is the content of the \<^verbatim>\<open>queue.Queue(maxsize=100)\<close>, oldest entry
  first; \<open>output_file\<close> is the open \<^verbatim>\<open>SoundFile\<close> (its name) or \<^verbatim>\<open>None\<close>;
  \<open>should_stop\<close> is whether the \<^verbatim>\<open>threading.Event\<close> is set.
\<close>

record jack_audio_sink =
  sink_channels :: nat
  jack_sample_rate :: nat
  audio_queue :: "buffer list"
  is_recording :: bool
  output_file :: "string option"
  write_thread :: "thread_state option"
  should_stop :: bool
  effects :: "effect list"

definition maxsize :: nat where
  "maxsize = 100"

text \<open>The sink as \<^verbatim>\<open>__init__\<close> leaves it.\<close>

definition new_sink :: "nat \<Rightarrow> nat \<Rightarrow> jack_audio_sink" where
  "new_sink chans rate =
     \<lparr>sink_channels = chans, jack_sample_rate = rate, audio_queue = [], is_recording = False,
      output_file = None, write_thread = None, should_stop = False, effects = []\<rparr>"

text \<open>
  \<^verbatim>\<open>np.column_stack\<close> of the port arrays: ValueError when there is no array or the arrays
  differ in length, otherwise the frames.
\<close>

definition column_stack :: "sample list list \<Rightarrow> py_error + buffer" where
  "column_stack arrays =
     (case arrays of
        [] \<Rightarrow> Inl ValueError
      | a # as \<Rightarrow>
          if \<forall>b \<in> set as. length b = length a then Inr (Stacked (transpose arrays))
          else Inl ValueError)"

text \<open>
  The read of the input ports; \<open>arrays\<close> is what \<^verbatim>\<open>get_array()\<close> returns for each input
  port, in order.
  \<^verbatim>\<open>
  if self.channels == 1:
      audio_data = self.input_ports[0].get_array()
  else:
      audio_data = np.column_stack([port.get_array() for port in self.input_ports])
  \<close>
\<close>

definition read_input_ports :: "nat \<Rightarrow> sample list list \<Rightarrow> py_error + buffer" where
  "read_input_ports chans arrays =
     (if chans = 1 then (case arrays of [] \<Rightarrow> Inl IndexError | a # _ \<Rightarrow> Inr (Mono a))
      else column_stack arrays)"

text \<open>
  \<^verbatim>\<open>
  def process_callback(self, frames):
      if not self.is_recording:
          return
      try:
          ... audio_data = ...
          self.audio_queue.put(audio_data.copy(), block=False)
      except queue.Full:
          print("Warning: Audio buffer full, dropping frames")
      except Exception as e:
          print(f"Error in process callback: {e}")
  \<close>
  \<^verbatim>\<open>put(block=False)\<close> raises \<^verbatim>\<open>queue.Full\<close> when the queue holds \<open>maxsize\<close> entries or
  more, and appends otherwise.
\<close>

definition process_callback_sink :: "sample list list \<Rightarrow> jack_audio_sink \<Rightarrow> jack_audio_sink" where
  "process_callback_sink arrays s =
     (if \<not> is_recording s then s
      else
        case read_input_ports (sink_channels s) arrays of
          Inl e \<Rightarrow> s\<lparr>effects := effects s @ [Print ''Error in process callback'']\<rparr>
        | Inr buf \<Rightarrow>
            if maxsize \<le> length (audio_queue s)
            then s\<lparr>effects := effects s @ [Print ''Warning: Audio buffer full, dropping frames'']\<rparr>
            else s\<lparr>audio_queue := audio_queue s @ [buf],
                   effects := effects s @ [Pushed buf]\<rparr>)"

text \<open>
  The loop of \<^verbatim>\<open>start_recording\<close> that empties the queue:
  \<^verbatim>\<open>
  while not self.audio_queue.empty():
      try:
          self.audio_queue.get_nowait()
      except queue.Empty:
          break
  \<close>
\<close>

fun clear_queue :: "buffer list \<Rightarrow> buffer list" where
  "clear_queue [] = []"
| "clear_queue (b # q) = clear_queue q"

text \<open>
  What \<^verbatim>\<open>start_recording\<close> meets outside the sink: the time stamp for the default file
  name, and whether \<^verbatim>\<open>os.makedirs\<close>, the opening of the \<^verbatim>\<open>SoundFile\<close> and the start of
  the thread succeed.
\<close>

record start_env =
  timestamp :: string
  makedirs_ok :: bool
  open_ok :: bool
  thread_start_ok :: bool

text \<open>
  \<^verbatim>\<open>start_recording(self, filename=None)\<close>. \<^verbatim>\<open>os.makedirs\<close> is outside the \<^verbatim>\<open>try\<close>: its
  exception leaves the method. Inside the \<^verbatim>\<open>try\<close>, an exception is printed and the
  method returns \<^verbatim>\<open>False\<close> with the assignments made so far.
\<close>

definition start_recording ::
  "string option \<Rightarrow> start_env \<Rightarrow> jack_audio_sink \<Rightarrow> py_error + bool \<times> jack_audio_sink" where
  "start_recording filename env s =
     (if is_recording s
      then Inr (False, s\<lparr>effects := effects s @ [Print ''Already recording!'']\<rparr>)
      else
        let fname = (case filename of
                       None \<Rightarrow> ''recording_'' @ timestamp env @ ''.wav''
                     | Some f \<Rightarrow> f)
        in if \<not> makedirs_ok env then Inl OSError
           else if \<not> open_ok env
           then Inr (False, s\<lparr>effects := effects s @ [Print ''Failed to start recording'']\<rparr>)
           else
             let s1 = s\<lparr>output_file := Some fname\<rparr>;
                 s2 = s1\<lparr>audio_queue := clear_queue (audio_queue s1)\<rparr>;
                 s3 = s2\<lparr>should_stop := False\<rparr>
             in if \<not> thread_start_ok env
                then Inr (False, s3\<lparr>write_thread := Some Unstarted,
                                   effects := effects s3 @ [Print ''Failed to start recording'']\<rparr>)
                else Inr (True, s3\<lparr>write_thread := Some Alive, is_recording := True,
                                  effects := effects s3 @ [Print (''Started recording to: '' @ fname)]\<rparr>))"

text \<open>
  One pass of the writer thread through its loop, test included; \<open>write_ok\<close> is whether
  the write of this pass, if it comes to it, succeeds.
  \<^verbatim>\<open>
  while not self.should_stop.is_set() or not self.audio_queue.empty():
      try:
          audio_data = self.audio_queue.get(timeout=0.1)
          if self.output_file:
              self.output_file.write(audio_data)
      except queue.Empty:
          continue
      except Exception as e:
          print(f"Error writing audio: {e}")
          break
  \<close>
  A thread that is not alive does nothing. When the test fails, or after \<^verbatim>\<open>break\<close>, the
  function returns and the thread has exited. \<^verbatim>\<open>get(timeout=0.1)\<close> on an empty queue that
  stays empty raises \<^verbatim>\<open>queue.Empty\<close>; a buffer that arrives during the wait is a
  callback before this pass.
\<close>

definition write_worker_step :: "bool \<Rightarrow> jack_audio_sink \<Rightarrow> jack_audio_sink" where
  "write_worker_step write_ok s =
     (if write_thread s \<noteq> Some Alive then s
      else if \<not> (\<not> should_stop s \<or> audio_queue s \<noteq> [])
      then s\<lparr>write_thread := Some Exited\<rparr>
      else
        case audio_queue s of
          [] \<Rightarrow> s
        | buf # rest \<Rightarrow>
            let s1 = s\<lparr>audio_queue := rest, effects := effects s @ [Popped buf]\<rparr>
            in if output_file s1 \<noteq> None
               then if write_ok
                    then s1\<lparr>effects := effects s1 @ [Written buf]\<rparr>
                    else s1\<lparr>write_thread := Some Exited,
                            effects := effects s1 @ [Print ''Error writing audio'']\<rparr>
               else s1)"

text \<open>
  The writer thread over a stretch of time: one pass for each element of the list, which
  gives the outcome of the write of that pass.
\<close>

fun write_worker :: "bool list \<Rightarrow> jack_audio_sink \<Rightarrow> jack_audio_sink" where
  "write_worker [] s = s"
| "write_worker (ok # oks) s = write_worker oks (write_worker_step ok s)"

text \<open>
  \<^verbatim>\<open>
  def stop_recording(self):
      if not self.is_recording:
          return
      print("Stopping recording...")
      self.is_recording = False
      self.should_stop.set()
      if self.write_thread and self.write_thread.is_alive():
          self.write_thread.join(timeout=5.0)
      if self.output_file:
          try:
              self.output_file.close()
              print(f"Recording saved: {self.output_file.name}")
          except Exception as e:
              print(f"Error closing file: {e}")
          finally:
              self.output_file = None
  \<close>
  \<open>joined\<close> is the passes of the writer thread that happen before \<^verbatim>\<open>join\<close> returns: all
  of them up to its exit, or those that fit in the five seconds of the timeout.
  \<open>close_ok\<close> is whether \<^verbatim>\<open>close\<close> succeeds.
\<close>

definition stop_recording :: "bool list \<Rightarrow> bool \<Rightarrow> jack_audio_sink \<Rightarrow> jack_audio_sink" where
  "stop_recording joined close_ok s =
     (if \<not> is_recording s then s
      else
        let s1 = s\<lparr>effects := effects s @ [Print ''Stopping recording...''],
                   is_recording := False, should_stop := True\<rparr>;
            s2 = (if write_thread s1 = Some Alive then write_worker joined s1 else s1)
        in case output_file s2 of
             None \<Rightarrow> s2
           | Some f \<Rightarrow>
               s2\<lparr>effects := effects s2 @
                     (if close_ok then [Closed f, Print (''Recording saved: '' @ f)]
                      else [Print ''Error closing file'']),
                  output_file := None\<rparr>)"

text \<open>
  A capture session after a successful \<open>start_recording\<close>: the audio server calls the
  callback, the writer thread makes its passes, in any interleaving.
\<close>

datatype capture_event = Process "sample list list" | WorkerPass bool

fun run_capture :: "capture_event list \<Rightarrow> jack_audio_sink \<Rightarrow> jack_audio_sink" where
  "run_capture [] s = s"
| "run_capture (Process arrays # evs) s = run_capture evs (process_callback_sink arrays s)"
| "run_capture (WorkerPass ok # evs) s = run_capture evs (write_worker_step ok s)"

text \<open>The buffers pushed, popped and written among a list of effects, in order.\<close>

fun pushed :: "effect list \<Rightarrow> buffer list" where
  "pushed [] = []"
| "pushed (Pushed b # es) = b # pushed es"
| "pushed (e # es) = pushed es"

fun popped :: "effect list \<Rightarrow> buffer list" where
  "popped [] = []"
| "popped (Popped b # es) = b # popped es"
| "popped (e # es) = popped es"

fun written :: "effect list \<Rightarrow> buffer list" where
  "written [] = []"
| "written (Written b # es) = b # written es"
| "written (e # es) = written es"

text \<open>The effects of a run from \<open>s\<close> to \<open>s'\<close>: what \<open>s'\<close> has after those of \<open>s\<close>.\<close>

definition effects_since :: "jack_audio_sink \<Rightarrow> jack_audio_sink \<Rightarrow> effect list" where
  "effects_since s s' = drop (length (effects s)) (effects s')"

text \<open>
  A whole capture session, from the state that a successful \<open>start_recording\<close> returns:
  the events of the recording, then \<open>stop_recording\<close>, then the passes that a writer
  thread still alive makes after \<open>stop_recording\<close> has returned.
\<close>

definition capture_session ::
  "capture_event list \<Rightarrow> bool list \<Rightarrow> bool \<Rightarrow> bool list \<Rightarrow> jack_audio_sink \<Rightarrow> jack_audio_sink" where
  "capture_session evs joined close_ok later s =
     write_worker later (stop_recording joined close_ok (run_capture evs s))"

text \<open>Whether every write of the passes among the events succeeds.\<close>

fun writes_ok :: "capture_event list \<Rightarrow> bool" where
  "writes_ok [] = True"
| "writes_ok (Process arrays # evs) = writes_ok evs"
| "writes_ok (WorkerPass ok # evs) = (ok \<and> writes_ok evs)"

text \<open>
  The invariant of a capture session that started with the effects \<open>base\<close> and an empty
  queue: of the effects \<open>es\<close> since then, the buffers pushed are those popped followed by
  the queue, the buffers written are a prefix of those popped, and all of the latter
  while the writer thread is alive and the file open.
\<close>

definition session_inv :: "effect list \<Rightarrow> jack_audio_sink \<Rightarrow> bool" where
  "session_inv base t \<longleftrightarrow>
     (let es = drop (length base) (effects t)
      in effects t = base @ es
         \<and> popped es @ audio_queue t = pushed es
         \<and> prefix (written es) (popped es)
         \<and> (write_thread t = Some Alive \<and> output_file t \<noteq> None \<longrightarrow> written es = popped es))"

text \<open>The effects of the writer thread taking each buffer of a queue and writing it.\<close>

fun pop_write :: "buffer list \<Rightarrow> effect list" where
  "pop_write [] = []"
| "pop_write (b # q) = Popped b # Written b # pop_write q"

section \<open>Example states\<close>

text \<open>A mono sink in the middle of a recording whose queue holds \<open>maxsize\<close> buffers.\<close>

definition full_sink :: jack_audio_sink where
  "full_sink =
     \<lparr>sink_channels = 1, jack_sample_rate = 48000, audio_queue = replicate 100 (Mono [0]),
      is_recording = True, output_file = Some ''take.wav'', write_thread = Some Alive,
      should_stop = False, effects = []\<rparr>"

text \<open>A mono sink in the middle of a recording with two buffers waiting for the writer.\<close>

definition busy_sink :: jack_audio_sink where
  "busy_sink =
     \<lparr>sink_channels = 1, jack_sample_rate = 48000, audio_queue = [Mono [1], Mono [2]],
      is_recording = True, output_file = Some ''take.wav'', write_thread = Some Alive,
      should_stop = False, effects = []\<rparr>"

text \<open>An idle sink whose queue still holds a buffer of an earlier recording.\<close>

definition stale_sink :: jack_audio_sink where
  "stale_sink =
     \<lparr>sink_channels = 1, jack_sample_rate = 48000, audio_queue = [Mono [3]],
      is_recording = False, output_file = None, write_thread = Some Exited,
      should_stop = True, effects = []\<rparr>"

text \<open>A mono sink right after \<^verbatim>\<open>start_recording("take.wav")\<close> on a new sink.\<close>

definition started_sink :: jack_audio_sink where
  "started_sink =
     \<lparr>sink_channels = 1, jack_sample_rate = 48000, audio_queue = [],
      is_recording = True, output_file = Some ''take.wav'', write_thread = Some Alive,
      should_stop = False, effects = [Print ''Started recording to: take.wav'']\<rparr>"

definition good_env :: start_env where
  "good_env = \<lparr>timestamp = ''20250101_120000'', makedirs_ok = True, open_ok = True,
               thread_start_ok = True\<rparr>"

text \<open>A stereo file of three frames.\<close>

definition three_frames :: wav_array where
  "three_frames = Array2 \<lparr>nrows = 3, ncols = 2, cell = (\<lambda>i j. real (10 * i + j + 1))\<rparr>"

section \<open>Clamping of the amplitude\<close>

text \<open>
  C9. For every real input value \<open>a\<close>, after \<open>set_amplitude a\<close> the amplitude field lies in
  the closed interval from 0 to 1: it equals \<open>a\<close> when \<open>0 \<le> a \<le> 1\<close>, equals 0 when
  \<open>a < 0\<close>, and equals 1 when \<open>a > 1\<close>.
\<close>

theorem set_amplitude_clamps:
  "0 \<le> amplitude (set_amplitude a g) \<and> amplitude (set_amplitude a g) \<le> 1
   \<and> (0 \<le> a \<and> a \<le> 1 \<longrightarrow> amplitude (set_amplitude a g) = a)
   \<and> (a < 0 \<longrightarrow> amplitude (set_amplitude a g) = 0)
   \<and> (1 < a \<longrightarrow> amplitude (set_amplitude a g) = 1)"
  by (simp add: set_amplitude_def py_min_def py_max_def)

theorem set_amplitude_clamps_witness:
  "amplitude (set_amplitude (1 / 2) example_generator) = 1 / 2
   \<and> amplitude (set_amplitude (- 3) example_generator) = 0
   \<and> amplitude (set_amplitude 7 example_generator) = 1"
  using set_amplitude_clamps [of "1 / 2" example_generator]
        set_amplitude_clamps [of "- 3" example_generator]
        set_amplitude_clamps [of 7 example_generator]
  by simp

section \<open>The default amplitudes of generate\_multiple\_frequencies\<close>

lemma generate_multiple_frequencies_None:
  "generate_multiple_frequencies g fs None d =
     (if py_int (sample_rate g * d) < 0 then Inl ValueError else Inl TypeError)"
  by (simp add: generate_multiple_frequencies_def np_zeros_def py_zip_def)

lemma accumulate_waves_same_length:
  "\<forall>p \<in> set pairs. length (generate g (fst p) (snd p) d 0) = length result \<Longrightarrow>
   \<exists>r. accumulate_waves g d pairs result = Inr r \<and> length r = length result"
proof (induction pairs arbitrary: result)
  case Nil
  then show ?case by simp
next
  case (Cons p pairs)
  obtain f a where p: "p = (f, a)" by (cases p)
  from Cons.prems have len: "length (generate g f a d 0) = length result"
    by (simp add: p)
  then have step: "np_iadd result (generate g f a d 0) = Inr (map2 (+) result (generate g f a d 0))"
    by (simp add: np_iadd_def)
  have "\<forall>q \<in> set pairs. length (generate g (fst q) (snd q) d 0)
          = length (map2 (+) result (generate g f a d 0))"
    using Cons.prems len by simp
  from Cons.IH [OF this] show ?case
    using len by (simp add: p step)
qed

lemma length_generate: "length (generate g f a d ph) = nat (py_int (sample_rate g * d))"
  by (simp add: generate_def np_arange_def)

lemma generate_multiple_frequencies_Some:
  assumes "0 \<le> py_int (sample_rate g * d)"
  shows "\<exists>r. generate_multiple_frequencies g fs (Some as) d = Inr r"
proof -
  have "\<forall>p \<in> set (zip fs as). length (generate g (fst p) (snd p) d 0)
          = length (replicate (nat (py_int (sample_rate g * d))) (0::real))"
    by (simp add: length_generate)
  from accumulate_waves_same_length [OF this] show ?thesis
    using assms by (auto simp: generate_multiple_frequencies_def np_zeros_def py_zip_def)
qed

text \<open>
  C10. For every non-empty list of frequencies, \<open>generate_multiple_frequencies\<close> called with
  the amplitudes left at their default \<open>None\<close> raises an exception; it does not return what
  the call with unit amplitudes returns, which is an array whenever the number of samples
  is not negative.
\<close>

theorem generate_multiple_frequencies_default_raises:
  assumes "frequencies \<noteq> []"
  shows "isl (generate_multiple_frequencies g frequencies None duration)
         \<and> (0 \<le> py_int (sample_rate g * duration) \<longrightarrow>
              generate_multiple_frequencies g frequencies None duration = Inl TypeError
              \<and> \<not> isl (generate_multiple_frequencies g frequencies
                         (Some (replicate (length frequencies) 1)) duration))"
proof -
  have a: "isl (generate_multiple_frequencies g frequencies None duration)"
    by (simp add: generate_multiple_frequencies_None)
  have b: "generate_multiple_frequencies g frequencies None duration = Inl TypeError"
    if "0 \<le> py_int (sample_rate g * duration)"
    using that by (simp add: generate_multiple_frequencies_None)
  have c: "\<not> isl (generate_multiple_frequencies g frequencies
                     (Some (replicate (length frequencies) 1)) duration)"
    if nn: "0 \<le> py_int (sample_rate g * duration)"
  proof -
    obtain r where "generate_multiple_frequencies g frequencies
                      (Some (replicate (length frequencies) 1)) duration = Inr r"
      using generate_multiple_frequencies_Some [OF nn] by blast
    then show ?thesis by simp
  qed
  from a b c show ?thesis by blast
qed

theorem generate_multiple_frequencies_default_raises_witness:
  "generate_multiple_frequencies \<lparr>sample_rate = 4\<rparr> [440, 880] None 1 = Inl TypeError
   \<and> \<not> isl (generate_multiple_frequencies \<lparr>sample_rate = 4\<rparr> [440, 880] (Some [1, 1]) 1)"
proof -
  have ne: "[440, 880 :: real] \<noteq> []" by simp
  have n: "(0::int) \<le> py_int (sample_rate \<lparr>sample_rate = 4\<rparr> * 1)"
    by (simp add: py_int_def)
  have r: "replicate (length [440, 880 :: real]) (1::real) = [1, 1]"
    by (simp add: numeral_2_eq_2)
  from generate_multiple_frequencies_default_raises [OF ne, of "\<lparr>sample_rate = 4\<rparr>" 1] n r
  show ?thesis by simp
qed

section \<open>The cursor of the player\<close>

lemma slice_indices_inside:
  assumes "0 \<le> lo" and "lo \<le> hi" and "hi \<le> int n"
  shows "slice_indices n lo hi = [nat lo..<nat hi]"
  using assms by (simp add: slice_indices_def min_def)

lemma fill_port_inside:
  assumes inv: "player_inv s" and ch: "ch < output_ports s"
  shows "\<exists>buf. fill_port s frames (py_min (int frames) (int (nrows (audio_data s)) - position s)) ch
                 = Inr buf
               \<and> length buf = frames
               \<and> drop (nat (int (nrows (audio_data s)) - position s)) buf
                   = replicate (frames - nat (int (nrows (audio_data s)) - position s)) 0"
proof -
  let ?n = "nrows (audio_data s)"
  let ?avail = "int ?n - position s"
  let ?k = "py_min (int frames) ?avail"
  from inv have pos: "0 \<le> position s" "position s \<le> int ?n"
    and chans: "output_ports s = channels s" "channels s = ncols (audio_data s)"
    by (simp_all add: player_inv_def)
  have k: "0 \<le> ?k" "?k \<le> int frames" "?k \<le> ?avail"
    using pos by (simp_all add: py_min_def)
  show ?thesis
  proof (cases "0 < ?k")
    case True
    let ?src = "map (\<lambda>i. cell (audio_data s) i ch) [nat (position s)..<nat (position s + ?k)]"
    have col: "column_slice (audio_data s) (position s) (position s + ?k)
                 (if ch < channels s then int ch else - 1) = Inr ?src"
      using ch chans pos k
      by (simp add: column_slice_def slice_indices_inside)
    have len: "length ?src = nat ?k"
      using pos k by simp
    have asg: "assign_slice (nat ?k) ?src = Inr ?src"
      unfolding assign_slice_def using len by simp
    have fp: "fill_port s frames ?k ch = Inr (?src @ replicate (frames - nat ?k) 0)"
      using True col asg by (simp add: fill_port_def)
    have l: "length (?src @ replicate (frames - nat ?k) 0) = frames"
      using len k by simp
    have d: "drop (nat ?avail) (?src @ replicate (frames - nat ?k) 0)
               = replicate (frames - nat ?avail) 0"
      using len k by (simp del: length_map length_upt)
    from fp l d show ?thesis by blast
  next
    case False
    then have fp: "fill_port s frames ?k ch = Inr (replicate frames 0)"
      by (simp add: fill_port_def)
    then show ?thesis by simp
  qed
qed


lemma fill_ports_inside:
  assumes inv: "player_inv s" and chs: "\<forall>ch \<in> set chs. ch < output_ports s"
  shows "\<exists>bufs. fill_ports s frames (py_min (int frames) (int (nrows (audio_data s)) - position s)) chs
                 = Inr bufs
               \<and> length bufs = length chs
               \<and> (\<forall>b \<in> set bufs. length b = frames
                     \<and> drop (nat (int (nrows (audio_data s)) - position s)) b
                         = replicate (frames - nat (int (nrows (audio_data s)) - position s)) 0)"
  using chs
proof (induction chs)
  case Nil
  then show ?case by simp
next
  case (Cons ch chs)
  then have "ch < output_ports s" by simp
  from fill_port_inside [OF inv this, of frames] obtain buf where buf:
    "fill_port s frames (py_min (int frames) (int (nrows (audio_data s)) - position s)) ch = Inr buf"
    "length buf = frames"
    "drop (nat (int (nrows (audio_data s)) - position s)) buf
       = replicate (frames - nat (int (nrows (audio_data s)) - position s)) 0"
    by blast
  from Cons obtain bufs where bufs:
    "fill_ports s frames (py_min (int frames) (int (nrows (audio_data s)) - position s)) chs = Inr bufs"
    "length bufs = length chs"
    "\<forall>b \<in> set bufs. length b = frames
        \<and> drop (nat (int (nrows (audio_data s)) - position s)) b
            = replicate (frames - nat (int (nrows (audio_data s)) - position s)) 0"
    by auto
  have "fill_ports s frames (py_min (int frames) (int (nrows (audio_data s)) - position s)) (ch # chs)
          = Inr (buf # bufs)"
    by (simp add: buf(1) bufs(1))
  moreover have "length (buf # bufs) = length (ch # chs)"
    by (simp add: bufs(2))
  moreover have "\<forall>b \<in> set (buf # bufs). length b = frames
        \<and> drop (nat (int (nrows (audio_data s)) - position s)) b
            = replicate (frames - nat (int (nrows (audio_data s)) - position s)) 0"
    using buf(2,3) bufs(3) by simp
  ultimately show ?case by blast
qed

lemma callback_playing:
  assumes inv: "player_inv s" and pl: "playing s"
  shows "\<exists>bufs. process_callback_player frames s =
           Inr (s\<lparr>position := py_min (position s + int frames) (int (nrows (audio_data s))),
                  playing := (position s + int frames < int (nrows (audio_data s))),
                  printed := printed s @
                    (if position s + int frames < int (nrows (audio_data s)) then []
                     else [''Playback finished''])\<rparr>, bufs)
         \<and> length bufs = output_ports s
         \<and> (\<forall>b \<in> set bufs. length b = frames
               \<and> drop (nat (int (nrows (audio_data s)) - position s)) b
                   = replicate (frames - nat (int (nrows (audio_data s)) - position s)) 0)"
proof -
  let ?n = "int (nrows (audio_data s))"
  let ?k = "py_min (int frames) (?n - position s)"
  have "\<forall>ch \<in> set [0..<output_ports s]. ch < output_ports s" by simp
  from fill_ports_inside [OF inv this, of frames] obtain bufs where bufs:
    "fill_ports s frames ?k [0..<output_ports s] = Inr bufs"
    "length bufs = output_ports s"
    "\<forall>b \<in> set bufs. length b = frames
        \<and> drop (nat (?n - position s)) b = replicate (frames - nat (?n - position s)) 0"
    by auto
  have pos: "position s + ?k = py_min (position s + int frames) ?n"
    by (simp add: py_min_def)
  have fin: "(?n \<le> position s + ?k) = (\<not> position s + int frames < ?n)"
    by (auto simp: py_min_def)
  have "process_callback_player frames s =
           Inr (s\<lparr>position := py_min (position s + int frames) ?n,
                  playing := (position s + int frames < ?n),
                  printed := printed s @
                    (if position s + int frames < ?n then [] else [''Playback finished''])\<rparr>, bufs)"
  proof (cases "position s + int frames < ?n")
    case True
    then show ?thesis
      using pl bufs(1) fin pos by (simp add: process_callback_player_def Let_def)
  next
    case False
    then show ?thesis
      using pl bufs(1) fin pos by (simp add: process_callback_player_def Let_def)
  qed
  with bufs(2,3) show ?thesis by blast
qed

lemma callback_not_playing:
  assumes "\<not> playing s"
  shows "process_callback_player frames s = Inr (s, replicate (output_ports s) (replicate frames 0))"
  using assms by (simp add: process_callback_player_def)


lemma callback_inside:
  assumes inv: "player_inv s"
  shows "\<exists>s' bufs. process_callback_player frames s = Inr (s', bufs)
           \<and> player_inv s' \<and> audio_data s' = audio_data s
           \<and> length bufs = output_ports s
           \<and> (\<forall>b \<in> set bufs. length b = frames
                 \<and> drop (nat (int (nrows (audio_data s)) - position s)) b
                     = replicate (frames - nat (int (nrows (audio_data s)) - position s)) 0)"
proof (cases "playing s")
  case True
  from callback_playing [OF inv True, of frames] obtain bufs where b:
    "process_callback_player frames s =
           Inr (s\<lparr>position := py_min (position s + int frames) (int (nrows (audio_data s))),
                  playing := (position s + int frames < int (nrows (audio_data s))),
                  printed := printed s @
                    (if position s + int frames < int (nrows (audio_data s)) then []
                     else [''Playback finished''])\<rparr>, bufs)"
    "length bufs = output_ports s"
    "\<forall>b \<in> set bufs. length b = frames
               \<and> drop (nat (int (nrows (audio_data s)) - position s)) b
                   = replicate (frames - nat (int (nrows (audio_data s)) - position s)) 0"
    by blast
  have "player_inv (s\<lparr>position := py_min (position s + int frames) (int (nrows (audio_data s))),
                  playing := (position s + int frames < int (nrows (audio_data s))),
                  printed := printed s @
                    (if position s + int frames < int (nrows (audio_data s)) then []
                     else [''Playback finished''])\<rparr>)"
    using inv by (simp add: player_inv_def py_min_def)
  with b show ?thesis by simp
next
  case False
  then show ?thesis
    using inv by (simp add: callback_not_playing)
qed

lemma commands_inside:
  assumes "player_inv s"
  shows "player_inv (play s)" and "player_inv (stop s)" and "player_inv (pause s)"
    and "player_inv (resume s)" and "player_inv (shutdown_callback s)"
  using assms
  by (simp_all add: player_inv_def play_def stop_def pause_def resume_def shutdown_callback_def)

lemma commands_audio_data:
  "audio_data (play s) = audio_data s" "audio_data (stop s) = audio_data s"
  "audio_data (pause s) = audio_data s" "audio_data (resume s) = audio_data s"
  "audio_data (shutdown_callback s) = audio_data s"
  by (simp_all add: play_def stop_def pause_def resume_def shutdown_callback_def)

lemma run_player_inside:
  assumes "player_inv s"
  shows "\<exists>s' outs. run_player evs s = Inr (s', outs) \<and> player_inv s'
           \<and> audio_data s' = audio_data s"
  using assms
proof (induction evs arbitrary: s)
  case Nil
  then show ?case by simp
next
  case (Cons ev evs)
  show ?case
  proof (cases ev)
    case (Callback frames)
    from callback_inside [OF Cons.prems, of frames] obtain s1 bufs where s1:
      "process_callback_player frames s = Inr (s1, bufs)" "player_inv s1"
      "audio_data s1 = audio_data s"
      by blast
    from Cons.IH [OF s1(2)] obtain s' outs where
      "run_player evs s1 = Inr (s', outs)" "player_inv s'" "audio_data s' = audio_data s1"
      by blast
    with s1 show ?thesis by (simp add: Callback)
  next
    case Play
    from Cons.IH [OF commands_inside(1) [OF Cons.prems]] show ?thesis
      by (simp add: Play commands_audio_data)
  next
    case Stop
    from Cons.IH [OF commands_inside(2) [OF Cons.prems]] show ?thesis
      by (simp add: Stop commands_audio_data)
  next
    case Pause
    from Cons.IH [OF commands_inside(3) [OF Cons.prems]] show ?thesis
      by (simp add: Pause commands_audio_data)
  next
    case Resume
    from Cons.IH [OF commands_inside(4) [OF Cons.prems]] show ?thesis
      by (simp add: Resume commands_audio_data)
  next
    case Shutdown
    from Cons.IH [OF commands_inside(5) [OF Cons.prems]] show ?thesis
      by (simp add: Shutdown commands_audio_data)
  qed
qed

lemma new_player_inside: "player_inv (new_player w rate)"
  by (cases w) (simp_all add: new_player_def load_wav_def player_inv_def)

text \<open>
  C6. For every playback session, that is every sequence of callbacks and commands on a
  player that \<^verbatim>\<open>__init__\<close> built, no call raises, the source is never replaced, and the
  cursor never leaves it: \<open>0 \<le> position \<le> len(audio_data)\<close> after every event. A further
  callback keeps the cursor inside too and fills every output buffer completely, with
  zeros from the first frame the source no longer provides.
\<close>

theorem cursor_stays_inside_source:
  "\<exists>s outs. run_player evs (new_player w rate) = Inr (s, outs)
      \<and> audio_data s = audio_data (new_player w rate)
      \<and> 0 \<le> position s \<and> position s \<le> int (nrows (audio_data s))
      \<and> (\<forall>frames. \<exists>s' bufs. process_callback_player frames s = Inr (s', bufs)
            \<and> 0 \<le> position s' \<and> position s' \<le> int (nrows (audio_data s'))
            \<and> nrows (audio_data s') = nrows (audio_data s)
            \<and> (\<forall>b \<in> set bufs. length b = frames
                  \<and> drop (nat (int (nrows (audio_data s)) - position s)) b
                      = replicate (frames - nat (int (nrows (audio_data s)) - position s)) 0))"
proof -
  from run_player_inside [OF new_player_inside, of evs w rate] obtain s outs where s:
    "run_player evs (new_player w rate) = Inr (s, outs)" "player_inv s"
    "audio_data s = audio_data (new_player w rate)"
    by blast
  have "\<exists>s' bufs. process_callback_player frames s = Inr (s', bufs)
            \<and> 0 \<le> position s' \<and> position s' \<le> int (nrows (audio_data s'))
            \<and> nrows (audio_data s') = nrows (audio_data s)
            \<and> (\<forall>b \<in> set bufs. length b = frames
                  \<and> drop (nat (int (nrows (audio_data s)) - position s)) b
                      = replicate (frames - nat (int (nrows (audio_data s)) - position s)) 0)"
    for frames
  proof -
    from callback_inside [OF s(2), of frames] obtain s' bufs where c:
      "process_callback_player frames s = Inr (s', bufs)" "player_inv s'"
      "audio_data s' = audio_data s"
      "\<forall>b \<in> set bufs. length b = frames
                 \<and> drop (nat (int (nrows (audio_data s)) - position s)) b
                     = replicate (frames - nat (int (nrows (audio_data s)) - position s)) 0"
      by blast
    from c(2) have "0 \<le> position s'" "position s' \<le> int (nrows (audio_data s'))"
      by (simp_all add: player_inv_def)
    with c show ?thesis by simp
  qed
  moreover from s(2) have "0 \<le> position s" "position s \<le> int (nrows (audio_data s))"
    by (simp_all add: player_inv_def)
  ultimately show ?thesis using s(1) s(3) by blast
qed


theorem cursor_stays_inside_source_witness:
  "\<exists>s outs. run_player [Play, Callback 2, Callback 2] (new_player three_frames 48000) = Inr (s, outs)
      \<and> 0 \<le> position s \<and> position s \<le> 3
      \<and> (\<exists>s' bufs. process_callback_player 2 s = Inr (s', bufs)
            \<and> 0 \<le> position s' \<and> position s' \<le> 3)"
proof -
  have n: "nrows (audio_data (new_player three_frames 48000)) = 3"
    by (simp add: new_player_def three_frames_def load_wav_def)
  from cursor_stays_inside_source [of "[Play, Callback 2, Callback 2]" three_frames 48000]
  obtain s outs where s:
    "run_player [Play, Callback 2, Callback 2] (new_player three_frames 48000) = Inr (s, outs)"
    and a: "audio_data s = audio_data (new_player three_frames 48000)"
    and p: "0 \<le> position s" "position s \<le> int (nrows (audio_data s))"
    and cb: "\<forall>frames. \<exists>s' bufs. process_callback_player frames s = Inr (s', bufs)
            \<and> 0 \<le> position s' \<and> position s' \<le> int (nrows (audio_data s'))
            \<and> nrows (audio_data s') = nrows (audio_data s)
            \<and> (\<forall>b \<in> set bufs. length b = frames
                  \<and> drop (nat (int (nrows (audio_data s)) - position s)) b
                      = replicate (frames - nat (int (nrows (audio_data s)) - position s)) 0)"
    by (elim exE conjE) (rule that)
  from cb have "\<exists>s' bufs. process_callback_player 2 s = Inr (s', bufs)
            \<and> 0 \<le> position s' \<and> position s' \<le> int (nrows (audio_data s'))
            \<and> nrows (audio_data s') = nrows (audio_data s)
            \<and> (\<forall>b \<in> set bufs. length b = 2
                  \<and> drop (nat (int (nrows (audio_data s)) - position s)) b
                      = replicate (2 - nat (int (nrows (audio_data s)) - position s)) 0)"
    by (rule spec)
  then obtain s' bufs where c:
    "process_callback_player 2 s = Inr (s', bufs)" "0 \<le> position s'"
    "position s' \<le> int (nrows (audio_data s'))" "nrows (audio_data s') = nrows (audio_data s)"
    by (elim exE conjE) (rule that)
  from a n have ns: "nrows (audio_data s) = 3"
    by simp
  from p(2) ns have ps: "position s \<le> 3"
    by simp
  from c(3) c(4) ns have ps': "position s' \<le> 3"
    by simp
  show ?thesis
  proof (intro exI conjI)
    show "run_player [Play, Callback 2, Callback 2] (new_player three_frames 48000) = Inr (s, outs)"
      by (rule s)
    show "0 \<le> position s" by (rule p(1))
    show "position s \<le> 3" by (rule ps)
    show "process_callback_player 2 s = Inr (s', bufs)" by (rule c(1))
    show "0 \<le> position s'" by (rule c(2))
    show "position s' \<le> 3" by (rule ps')
  qed
qed

section \<open>Playback past the end of the source\<close>

lemma run_callbacks_idle:
  assumes "\<not> playing t"
  shows "run_player (map Callback fs) t =
           Inr (t, map (\<lambda>f. replicate (output_ports t) (replicate f 0)) fs)"
  using assms by (induction fs) (simp_all add: callback_not_playing)

lemma finished_reports_printed:
  "finished_reports (s\<lparr>printed := printed s @ extra\<rparr>) =
     finished_reports s + count_list extra ''Playback finished''"
  by (simp add: finished_reports_def)

lemma run_callbacks_playing:
  assumes "player_inv t" and "playing t"
  shows "\<exists>t' outs. run_player (map Callback fs) t = Inr (t', outs)
           \<and> length outs = length fs
           \<and> finished_reports t' = finished_reports t +
                (if fs \<noteq> [] \<and> int (nrows (audio_data t)) \<le> position t + int (sum_list fs)
                 then 1 else 0)
           \<and> (\<forall>i < length fs. length (outs ! i) = output_ports t
                 \<and> (\<forall>b \<in> set (outs ! i). length b = fs ! i
                       \<and> (int (nrows (audio_data t)) \<le> position t + int (sum_list (take i fs))
                            \<longrightarrow> b = replicate (fs ! i) 0)))"
  using assms
proof (induction fs arbitrary: t)
  case Nil
  then show ?case by simp
next
  case (Cons f rest)
  let ?n = "int (nrows (audio_data t))"
  let ?t1 = "t\<lparr>position := py_min (position t + int f) ?n,
               playing := (position t + int f < ?n),
               printed := printed t @
                 (if position t + int f < ?n then [] else [''Playback finished''])\<rparr>"
  from callback_playing [OF Cons.prems, of f] obtain bufs where cb:
    "process_callback_player f t = Inr (?t1, bufs)"
    "length bufs = output_ports t"
    "\<forall>b \<in> set bufs. length b = f
        \<and> drop (nat (?n - position t)) b = replicate (f - nat (?n - position t)) 0"
    by blast
  have head: "\<forall>b \<in> set bufs. length b = f \<and> (?n \<le> position t \<longrightarrow> b = replicate f 0)"
    using cb(3) by auto
  show ?case
  proof (cases "position t + int f < ?n")
    case True
    have inv1: "player_inv ?t1"
      using Cons.prems(1) True by (simp add: player_inv_def py_min_def)
    have pl1: "playing ?t1"
      using True by simp
    from Cons.IH [OF inv1 pl1] obtain t' outs where ih:
      "run_player (map Callback rest) ?t1 = Inr (t', outs)"
      "length outs = length rest"
      "finished_reports t' = finished_reports ?t1 +
         (if rest \<noteq> [] \<and> int (nrows (audio_data ?t1)) \<le> position ?t1 + int (sum_list rest)
          then 1 else 0)"
      "\<forall>i < length rest. length (outs ! i) = output_ports ?t1
          \<and> (\<forall>b \<in> set (outs ! i). length b = rest ! i
                \<and> (int (nrows (audio_data ?t1)) \<le> position ?t1 + int (sum_list (take i rest))
                     \<longrightarrow> b = replicate (rest ! i) 0))"
      by blast
    have p1: "position ?t1 = position t + int f"
      using True by (simp add: py_min_def)
    have f1: "finished_reports ?t1 = finished_reports t"
      using True by (simp add: finished_reports_def)
    have run: "run_player (map Callback (f # rest)) t = Inr (t', bufs # outs)"
      by (simp add: cb(1) ih(1))
    have len: "length (bufs # outs) = length (f # rest)"
      by (simp add: ih(2))
    have fin: "finished_reports t' = finished_reports t +
                (if f # rest \<noteq> [] \<and> ?n \<le> position t + int (sum_list (f # rest)) then 1 else 0)"
      using ih(3) True unfolding p1 f1 by (cases rest) (simp_all add: add.assoc)
    have outs: "length ((bufs # outs) ! i) = output_ports t
          \<and> (\<forall>b \<in> set ((bufs # outs) ! i). length b = (f # rest) ! i
                \<and> (?n \<le> position t + int (sum_list (take i (f # rest)))
                     \<longrightarrow> b = replicate ((f # rest) ! i) 0))"
      if "i < length (f # rest)" for i
    proof (cases i)
      case 0
      then show ?thesis using cb(2) head by simp
    next
      case (Suc j)
      with that have "j < length rest" by simp
      with ih(4) have "length (outs ! j) = output_ports ?t1
          \<and> (\<forall>b \<in> set (outs ! j). length b = rest ! j
                \<and> (int (nrows (audio_data ?t1)) \<le> position ?t1 + int (sum_list (take j rest))
                     \<longrightarrow> b = replicate (rest ! j) 0))"
        by blast
      then show ?thesis
        unfolding p1 by (simp add: Suc add.assoc)
    qed
    from run len fin outs show ?thesis by blast
  next
    case False
    have idle: "\<not> playing ?t1"
      using False by simp
    let ?outs = "map (\<lambda>g. replicate (output_ports ?t1) (replicate g 0)) rest"
    have run: "run_player (map Callback (f # rest)) t = Inr (?t1, bufs # ?outs)"
      by (simp add: cb(1) run_callbacks_idle [OF idle])
    have len: "length (bufs # ?outs) = length (f # rest)"
      by simp
    have fin: "finished_reports ?t1 = finished_reports t +
                (if f # rest \<noteq> [] \<and> ?n \<le> position t + int (sum_list (f # rest)) then 1 else 0)"
      using False by (simp add: finished_reports_def)
    have outs: "length ((bufs # ?outs) ! i) = output_ports t
          \<and> (\<forall>b \<in> set ((bufs # ?outs) ! i). length b = (f # rest) ! i
                \<and> (?n \<le> position t + int (sum_list (take i (f # rest)))
                     \<longrightarrow> b = replicate ((f # rest) ! i) 0))"
      if "i < length (f # rest)" for i
    proof (cases i)
      case 0
      then show ?thesis using cb(2) head by simp
    next
      case (Suc j)
      with that have "j < length rest" by simp
      then show ?thesis by (simp add: Suc)
    qed
    from run len fin outs show ?thesis by blast
  qed
qed


text \<open>
  C3. For every playback session whose source is shorter than what the callbacks request
  after \<open>play\<close>, no callback raises, every callback fills each of its output buffers with
  exactly the frames requested, every callback that comes when the source is exhausted
  fills them with zeros only, and the end of the playback is reported exactly once.
\<close>

theorem playback_past_end_is_silence:
  assumes reach: "run_player evs (new_player w rate) = Inr (s, outs0)"
      and short: "nrows (audio_data s) < sum_list fs"
  shows "\<exists>s' outs. run_player (map Callback fs) (play s) = Inr (s', outs)
           \<and> length outs = length fs
           \<and> (\<forall>i < length fs. length (outs ! i) = output_ports s
                 \<and> (\<forall>b \<in> set (outs ! i). length b = fs ! i
                       \<and> (nrows (audio_data s) \<le> sum_list (take i fs)
                            \<longrightarrow> b = replicate (fs ! i) 0)))
           \<and> finished_reports s' = finished_reports (play s) + 1"
proof -
  from run_player_inside [OF new_player_inside, of evs w rate] reach
  have "player_inv s" by auto
  then have inv: "player_inv (play s)"
    by (rule commands_inside)
  have pl: "playing (play s)" and pos: "position (play s) = 0"
    and ad: "audio_data (play s) = audio_data s" and po: "output_ports (play s) = output_ports s"
    by (simp_all add: play_def)
  from short have ne: "fs \<noteq> []" by auto
  from run_callbacks_playing [OF inv pl, of fs] obtain s' outs where r:
    "run_player (map Callback fs) (play s) = Inr (s', outs)"
    "length outs = length fs"
    "finished_reports s' = finished_reports (play s) +
        (if fs \<noteq> [] \<and> int (nrows (audio_data (play s))) \<le> position (play s) + int (sum_list fs)
         then 1 else 0)"
    "\<forall>i < length fs. length (outs ! i) = output_ports (play s)
        \<and> (\<forall>b \<in> set (outs ! i). length b = fs ! i
              \<and> (int (nrows (audio_data (play s))) \<le> position (play s) + int (sum_list (take i fs))
                   \<longrightarrow> b = replicate (fs ! i) 0))"
    by blast
  from r(3) short ne have fin: "finished_reports s' = finished_reports (play s) + 1"
    by (simp add: pos ad)
  from r(4) have outs: "\<forall>i < length fs. length (outs ! i) = output_ports s
        \<and> (\<forall>b \<in> set (outs ! i). length b = fs ! i
              \<and> (nrows (audio_data s) \<le> sum_list (take i fs) \<longrightarrow> b = replicate (fs ! i) 0))"
    by (simp add: pos ad po)
  from r(1) r(2) outs fin show ?thesis by blast
qed

theorem playback_past_end_is_silence_witness:
  "nrows (audio_data (new_player three_frames 48000)) < sum_list [2, 2, 2]
   \<and> (\<exists>s' outs. run_player (map Callback [2, 2, 2]) (play (new_player three_frames 48000))
                     = Inr (s', outs)
          \<and> length outs = 3 \<and> outs ! 2 = [[0, 0], [0, 0]] \<and> finished_reports s' = 1)"
proof -
  let ?p = "new_player three_frames 48000"
  have reach: "run_player [] ?p = Inr (?p, [])"
    by simp
  have n: "nrows (audio_data ?p) = 3"
    by (simp add: new_player_def three_frames_def load_wav_def)
  have short: "nrows (audio_data ?p) < sum_list [2, 2, 2]"
    by (simp add: n)
  have ports: "output_ports ?p = 2"
    by (simp add: new_player_def three_frames_def load_wav_def)
  have f0: "finished_reports (play ?p) = 0"
    by (simp add: finished_reports_def play_def new_player_def three_frames_def load_wav_def)
  from playback_past_end_is_silence [OF reach short] obtain s' outs where r:
    "run_player (map Callback [2, 2, 2]) (play ?p) = Inr (s', outs)"
    and len: "length outs = length [2, 2, 2 :: nat]"
    and bufs: "\<forall>i < length [2, 2, 2 :: nat]. length (outs ! i) = output_ports ?p
        \<and> (\<forall>b \<in> set (outs ! i). length b = [2, 2, 2] ! i
              \<and> (nrows (audio_data ?p) \<le> sum_list (take i [2, 2, 2])
                   \<longrightarrow> b = replicate ([2, 2, 2] ! i) 0))"
    and fin: "finished_reports s' = finished_reports (play ?p) + 1"
    by (elim exE conjE) (rule that)
  have two: "(2::nat) < length [2, 2, 2 :: nat]"
    by simp
  from bufs two have i2: "length (outs ! 2) = output_ports ?p
        \<and> (\<forall>b \<in> set (outs ! 2). length b = [2, 2, 2] ! 2
              \<and> (nrows (audio_data ?p) \<le> sum_list (take 2 [2, 2, 2])
                   \<longrightarrow> b = replicate ([2, 2, 2] ! 2) 0))"
    by (elim allE [of _ 2] impE) 
  have past: "nrows (audio_data ?p) \<le> sum_list (take 2 [2, 2, 2])"
    unfolding n by (simp add: numeral_2_eq_2)
  have third: "[2, 2, 2 :: nat] ! 2 = 2"
    by (simp add: numeral_2_eq_2)
  from i2 have l: "length (outs ! 2) = 2"
    unfolding ports by (elim conjE)
  from i2 past have z: "\<forall>b \<in> set (outs ! 2). b = replicate 2 0"
    unfolding third by (elim conjE) (intro ballI, drule (1) bspec, elim conjE impE, assumption+)
  from l obtain a b where ab: "outs ! 2 = [a, b]"
    by (auto simp: numeral_2_eq_2 length_Suc_conv)
  from z have "a = replicate 2 0" and "b = replicate 2 0"
    unfolding ab by simp_all
  then have o2: "outs ! 2 = [[0, 0], [0, 0]]"
    unfolding ab by (simp add: numeral_2_eq_2)
  from len have l3: "length outs = 3"
    by simp
  from fin have f1: "finished_reports s' = 1"
    unfolding f0 by simp
  show ?thesis
  proof (intro exI conjI)
    show "nrows (audio_data ?p) < sum_list [2, 2, 2]" by (rule short)
    show "run_player (map Callback [2, 2, 2]) (play ?p) = Inr (s', outs)" by (rule r)
    show "length outs = 3" by (rule l3)
    show "outs ! 2 = [[0, 0], [0, 0]]" by (rule o2)
    show "finished_reports s' = 1" by (rule f1)
  qed
qed

section \<open>The capture callback on a full queue\<close>

text \<open>
  C1, as stated, fails: the sink keeps no count of dropped buffers. On the full queue of
  \<open>full_sink\<close> the callback leaves every attribute of the sink as it was; its only effect
  is the printed warning.
\<close>

theorem full_queue_push_counts_nothing:
  "process_callback_sink [[1 / 2]] full_sink =
     full_sink\<lparr>effects := effects full_sink @
                  [Print ''Warning: Audio buffer full, dropping frames'']\<rparr>"
  by (simp add: process_callback_sink_def full_sink_def read_input_ports_def maxsize_def)

text \<open>
  C1, amended. For every call of the capture callback while recording with the queue
  full, the call returns with every attribute of the sink unchanged: the buffer is not
  queued, the queue is as before, the recording goes on, and exactly one line is printed,
  the warning about dropped frames when the ports could be read. No counter is kept.
\<close>

theorem full_queue_push_dropped:
  assumes "is_recording s" and "maxsize \<le> length (audio_queue s)"
  shows "process_callback_sink arrays s =
           s\<lparr>effects := effects s @
                [Print (if isl (read_input_ports (sink_channels s) arrays)
                        then ''Error in process callback''
                        else ''Warning: Audio buffer full, dropping frames'')]\<rparr>"
  using assms by (simp add: process_callback_sink_def split: sum.splits)

theorem full_queue_push_dropped_witness:
  "is_recording full_sink \<and> maxsize \<le> length (audio_queue full_sink)
   \<and> audio_queue (process_callback_sink [[1 / 4, 3 / 4]] full_sink) = audio_queue full_sink
   \<and> is_recording (process_callback_sink [[1 / 4, 3 / 4]] full_sink)
   \<and> effects (process_callback_sink [[1 / 4, 3 / 4]] full_sink) =
       [Print ''Warning: Audio buffer full, dropping frames'']"
proof -
  have r: "is_recording full_sink"
    by (simp add: full_sink_def)
  have f: "maxsize \<le> length (audio_queue full_sink)"
    by (simp add: full_sink_def maxsize_def)
  have p: "\<not> isl (read_input_ports (sink_channels full_sink) [[1 / 4, 3 / 4]])"
    by (simp add: full_sink_def read_input_ports_def)
  have e: "effects full_sink = []"
    by (simp add: full_sink_def)
  from full_queue_push_dropped [OF r f, of "[[1 / 4, 3 / 4]]"] r f p e
  show ?thesis by simp
qed

section \<open>Starting a recording\<close>

lemma clear_queue_empty: "clear_queue q = []"
  by (induction q) simp_all

text \<open>
  C7. Starting a sink that is already recording is a no-op reported as already running:
  \<open>start_recording\<close> returns \<open>False\<close>, prints the line, and leaves the recording flag, the
  queue, the output file and the writer thread, as every other attribute, unchanged.
\<close>

theorem start_recording_when_active:
  assumes "is_recording s"
  shows "start_recording filename env s =
           Inr (False, s\<lparr>effects := effects s @ [Print ''Already recording!'']\<rparr>)"
  using assms by (simp add: start_recording_def)

theorem start_recording_when_active_witness:
  "is_recording busy_sink
   \<and> start_recording (Some ''other.wav'') good_env busy_sink =
       Inr (False, busy_sink\<lparr>effects := [Print ''Already recording!'']\<rparr>)"
proof -
  have r: "is_recording busy_sink"
    by (simp add: busy_sink_def)
  have e: "effects busy_sink = []"
    by (simp add: busy_sink_def)
  from start_recording_when_active [OF r, of "Some ''other.wav''" good_env] r e
  show ?thesis by simp
qed

text \<open>
  C8. A successful start of a recording leaves the queue empty of the buffers of an
  earlier session, and starting the playback puts the cursor at 0.
\<close>

theorem start_resets_queue_and_cursor:
  "(start_recording filename env s = Inr (True, s') \<longrightarrow> audio_queue s' = [])
   \<and> position (play p) = 0"
  by (auto simp: start_recording_def play_def Let_def clear_queue_empty split: if_splits)

theorem start_resets_queue_and_cursor_witness:
  "audio_queue stale_sink = [Mono [3]]
   \<and> start_recording None good_env stale_sink =
       Inr (True,
            stale_sink\<lparr>output_file := Some ''recording_20250101_120000.wav'',
                        audio_queue := [], should_stop := False,
                        write_thread := Some Alive, is_recording := True,
                        effects := [Print ''Started recording to: recording_20250101_120000.wav'']\<rparr>)
   \<and> audio_queue
        (stale_sink\<lparr>output_file := Some ''recording_20250101_120000.wav'',
                     audio_queue := [], should_stop := False,
                     write_thread := Some Alive, is_recording := True,
                     effects := [Print ''Started recording to: recording_20250101_120000.wav'']\<rparr>) = []
   \<and> position (play (new_player three_frames 48000)) = 0"
proof -
  have q: "audio_queue stale_sink = [Mono [3]]"
    by (simp add: stale_sink_def)
  have st: "start_recording None good_env stale_sink =
       Inr (True,
            stale_sink\<lparr>output_file := Some ''recording_20250101_120000.wav'',
                        audio_queue := [], should_stop := False,
                        write_thread := Some Alive, is_recording := True,
                        effects := [Print ''Started recording to: recording_20250101_120000.wav'']\<rparr>)"
    by (simp add: start_recording_def stale_sink_def good_env_def Let_def)
  from start_resets_queue_and_cursor [of None good_env stale_sink _ "new_player three_frames 48000"] q st
  show ?thesis by blast
qed

section \<open>A write that fails\<close>

text \<open>
  C5, as stated, fails: when the write of the first buffer of \<open>busy_sink\<close> fails, the
  writer thread exits, but the recording flag stays set and the output file stays open;
  nothing is closed.
\<close>

theorem write_failure_leaves_session_active:
  "write_worker_step False busy_sink =
     busy_sink\<lparr>audio_queue := [Mono [2]], write_thread := Some Exited,
                effects := [Popped (Mono [1]), Print ''Error writing audio'']\<rparr>
   \<and> is_recording (write_worker_step False busy_sink)
   \<and> output_file (write_worker_step False busy_sink) = Some ''take.wav''"
  by (simp add: write_worker_step_def busy_sink_def)

text \<open>
  C5, amended. A failure of the write ends the writer thread only: the thread prints the
  error and exits, and the buffer it had taken is lost. The recording flag and the output
  file are left as they are, and the callback goes on queueing. The session becomes idle
  at the next \<open>stop_recording\<close>, which clears the flag and closes the file.
\<close>

theorem write_failure_stops_worker_only:
  assumes "write_thread s = Some Alive" and "audio_queue s = b # q"
      and "output_file s = Some f" and "is_recording s"
  shows "write_worker_step False s =
           s\<lparr>audio_queue := q, write_thread := Some Exited,
              effects := effects s @ [Popped b, Print ''Error writing audio'']\<rparr>
         \<and> write_worker passes (write_worker_step False s) = write_worker_step False s
         \<and> stop_recording joined close_ok (write_worker_step False s) =
             s\<lparr>audio_queue := q, write_thread := Some Exited,
                is_recording := False, should_stop := True, output_file := None,
                effects := effects s @ [Popped b, Print ''Error writing audio'',
                                        Print ''Stopping recording...''] @
                           (if close_ok then [Closed f, Print (''Recording saved: '' @ f)]
                            else [Print ''Error closing file''])\<rparr>"
proof -
  have step: "write_worker_step False s =
           s\<lparr>audio_queue := q, write_thread := Some Exited,
              effects := effects s @ [Popped b, Print ''Error writing audio'']\<rparr>"
    using assms by (simp add: write_worker_step_def)
  have idle: "write_worker passes t = t" if "write_thread t \<noteq> Some Alive" for t passes
    using that by (induction passes) (simp_all add: write_worker_step_def)
  have stay: "write_worker passes (write_worker_step False s) = write_worker_step False s"
    by (rule idle) (simp add: step)
  have stop: "stop_recording joined close_ok (write_worker_step False s) =
             s\<lparr>audio_queue := q, write_thread := Some Exited,
                is_recording := False, should_stop := True, output_file := None,
                effects := effects s @ [Popped b, Print ''Error writing audio'',
                                        Print ''Stopping recording...''] @
                           (if close_ok then [Closed f, Print (''Recording saved: '' @ f)]
                            else [Print ''Error closing file''])\<rparr>"
    using assms by (simp add: step stop_recording_def)
  from step stay stop show ?thesis by blast
qed

theorem write_failure_stops_worker_only_witness:
  "write_thread (write_worker_step False busy_sink) = Some Exited
   \<and> is_recording (write_worker_step False busy_sink)
   \<and> output_file (write_worker_step False busy_sink) = Some ''take.wav''
   \<and> write_worker [True, True] (write_worker_step False busy_sink) =
       write_worker_step False busy_sink
   \<and> \<not> is_recording (stop_recording [True] True (write_worker_step False busy_sink))
   \<and> output_file (stop_recording [True] True (write_worker_step False busy_sink)) = None
   \<and> effects (stop_recording [True] True (write_worker_step False busy_sink)) =
       [Popped (Mono [1]), Print ''Error writing audio'', Print ''Stopping recording...'',
        Closed ''take.wav'', Print ''Recording saved: take.wav'']"
proof -
  have a: "write_thread busy_sink = Some Alive"
    and b: "audio_queue busy_sink = Mono [1] # [Mono [2]]"
    and c: "output_file busy_sink = Some ''take.wav''"
    and d: "is_recording busy_sink"
    and e: "effects busy_sink = []"
    by (simp_all add: busy_sink_def)
  note w = write_failure_stops_worker_only [OF a b c d, of "[True, True]" "[True]" True]
  from w have step: "write_worker_step False busy_sink =
      busy_sink\<lparr>audio_queue := [Mono [2]], write_thread := Some Exited,
                 effects := effects busy_sink @ [Popped (Mono [1]), Print ''Error writing audio'']\<rparr>"
    by blast
  from w have stay: "write_worker [True, True] (write_worker_step False busy_sink) =
      write_worker_step False busy_sink"
    by blast
  from w have stop: "stop_recording [True] True (write_worker_step False busy_sink) =
      busy_sink\<lparr>audio_queue := [Mono [2]], write_thread := Some Exited,
                 is_recording := False, should_stop := True, output_file := None,
                 effects := effects busy_sink @ [Popped (Mono [1]), Print ''Error writing audio'',
                                                Print ''Stopping recording...''] @
                            (if True then [Closed ''take.wav'', Print (''Recording saved: '' @ ''take.wav'')]
                             else [Print ''Error closing file''])\<rparr>"
    by blast
  have 1: "write_thread (write_worker_step False busy_sink) = Some Exited"
    by (simp add: step)
  have 2: "is_recording (write_worker_step False busy_sink)"
    by (simp add: step d)
  have 3: "output_file (write_worker_step False busy_sink) = Some ''take.wav''"
    by (simp add: step c)
  have 4: "\<not> is_recording (stop_recording [True] True (write_worker_step False busy_sink))"
    by (simp add: stop)
  have 5: "output_file (stop_recording [True] True (write_worker_step False busy_sink)) = None"
    by (simp add: stop)
  have 6: "effects (stop_recording [True] True (write_worker_step False busy_sink)) =
       [Popped (Mono [1]), Print ''Error writing audio'', Print ''Stopping recording...'',
        Closed ''take.wav'', Print ''Recording saved: take.wav'']"
    by (simp add: stop e)
  from 1 2 3 stay 4 5 6 show ?thesis by blast
qed

section \<open>The writer thread and the stop of a recording\<close>

lemma pushed_append: "pushed (xs @ ys) = pushed xs @ pushed ys"
  by (induction xs rule: pushed.induct) simp_all
lemma popped_append: "popped (xs @ ys) = popped xs @ popped ys"
  by (induction xs rule: popped.induct) simp_all
lemma written_append: "written (xs @ ys) = written xs @ written ys"
  by (induction xs rule: written.induct) simp_all

lemma write_worker_not_alive: "write_thread t \<noteq> Some Alive \<Longrightarrow> write_worker passes t = t"
  by (induction passes) (simp_all add: write_worker_step_def)

lemma write_worker_drains:
  assumes "write_thread s = Some Alive" and "should_stop s" and "output_file s = Some f"
      and "\<forall>ok \<in> set passes. ok" and "length (audio_queue s) < length passes"
  shows "write_worker passes s =
           s\<lparr>audio_queue := [], write_thread := Some Exited,
              effects := effects s @ pop_write (audio_queue s)\<rparr>"
  using assms
proof (induction passes arbitrary: s)
  case Nil
  then show ?case by simp
next
  case (Cons ok passes)
  then have ok: "ok" by simp
  show ?case
  proof (cases "audio_queue s")
    case Nil
    then have "write_worker_step ok s = s\<lparr>write_thread := Some Exited\<rparr>"
      using Cons.prems by (simp add: write_worker_step_def)
    then show ?thesis
      using Nil by (simp add: write_worker_not_alive)
  next
    case (Cons b q)
    let ?t = "s\<lparr>audio_queue := q, effects := effects s @ [Popped b, Written b]\<rparr>"
    have st: "write_worker_step ok s = ?t"
      using Cons Cons.prems ok \<open>output_file s = Some f\<close> \<open>write_thread s = Some Alive\<close>
      by (simp add: write_worker_step_def)
    have "write_worker passes ?t =
            ?t\<lparr>audio_queue := [], write_thread := Some Exited,
                effects := effects ?t @ pop_write (audio_queue ?t)\<rparr>"
      using Cons.prems Cons by (intro Cons.IH) auto
    then show ?thesis
      using Cons by (simp add: st)
  qed
qed


lemma written_pop_write: "written (pop_write q) = q"
  by (induction q) simp_all
lemma popped_pop_write: "popped (pop_write q) = q"
  by (induction q) simp_all
lemma pushed_pop_write: "pushed (pop_write q) = []"
  by (induction q) simp_all

lemma stop_recording_drains:
  assumes "is_recording s" and "write_thread s = Some Alive" and "output_file s = Some f"
      and "\<forall>ok \<in> set joined. ok" and "length (audio_queue s) < length joined"
  shows "stop_recording joined close_ok s =
           s\<lparr>is_recording := False, should_stop := True, audio_queue := [],
              write_thread := Some Exited, output_file := None,
              effects := effects s @ [Print ''Stopping recording...''] @
                         pop_write (audio_queue s) @
                         (if close_ok then [Closed f, Print (''Recording saved: '' @ f)]
                          else [Print ''Error closing file''])\<rparr>"
proof -
  let ?s1 = "s\<lparr>effects := effects s @ [Print ''Stopping recording...''],
               is_recording := False, should_stop := True\<rparr>"
  have "write_worker joined ?s1 =
          ?s1\<lparr>audio_queue := [], write_thread := Some Exited,
               effects := effects ?s1 @ pop_write (audio_queue ?s1)\<rparr>"
    using assms by (intro write_worker_drains [where f = f]) simp_all
  then show ?thesis
    using assms by (simp add: stop_recording_def)
qed

text \<open>
  C4, as stated, fails. \<open>busy_sink\<close> is stopped with two buffers in the queue and no write
  fails, but the writer thread makes one pass only before the \<^verbatim>\<open>join(timeout=5.0)\<close> of
  \<open>stop_recording\<close> gives up: the file is closed, and the second buffer, popped afterwards,
  is not written.
\<close>

theorem join_timeout_loses_buffer:
  "audio_queue busy_sink = [Mono [1], Mono [2]]
   \<and> effects (write_worker [True, True] (stop_recording [True] True busy_sink)) =
       [Print ''Stopping recording...'', Popped (Mono [1]), Written (Mono [1]),
        Closed ''take.wav'', Print ''Recording saved: take.wav'', Popped (Mono [2])]
   \<and> write_thread (write_worker [True, True] (stop_recording [True] True busy_sink)) = Some Exited"
  by (simp add: busy_sink_def stop_recording_def write_worker_step_def Let_def)

text \<open>
  C4, amended. On a clean stop, that is when no write fails and the writer thread exits
  before the join of \<open>stop_recording\<close> gives up (the passes made during the join outnumber
  the queued buffers), the thread runs until the stop signal is set and the queue is
  empty: every buffer that was in the queue when the stop was requested is popped and
  written, in order, before the thread exits and before the file is closed. A pass whose
  write succeeds ends the thread exactly when the stop signal is set and the queue is
  empty.
\<close>

theorem clean_stop_drains_queue:
  assumes "is_recording s" and "write_thread s = Some Alive" and "output_file s = Some f"
      and "\<forall>ok \<in> set joined. ok" and "length (audio_queue s) < length joined"
  shows "write_thread (stop_recording joined close_ok s) = Some Exited
         \<and> audio_queue (stop_recording joined close_ok s) = []
         \<and> written (effects_since s (stop_recording joined close_ok s)) = audio_queue s
         \<and> effects_since s (stop_recording joined close_ok s) =
             [Print ''Stopping recording...''] @ pop_write (audio_queue s) @
             (if close_ok then [Closed f, Print (''Recording saved: '' @ f)]
              else [Print ''Error closing file''])
         \<and> (\<forall>t. write_thread t = Some Alive \<longrightarrow>
               (write_thread (write_worker_step True t) = Some Exited)
                 = (should_stop t \<and> audio_queue t = []))"
proof -
  note d = stop_recording_drains [OF assms, of close_ok]
  have 1: "write_thread (stop_recording joined close_ok s) = Some Exited"
    by (simp add: d)
  have 2: "audio_queue (stop_recording joined close_ok s) = []"
    by (simp add: d)
  have 4: "effects_since s (stop_recording joined close_ok s) =
             [Print ''Stopping recording...''] @ pop_write (audio_queue s) @
             (if close_ok then [Closed f, Print (''Recording saved: '' @ f)]
              else [Print ''Error closing file''])"
    by (simp add: d effects_since_def)
  have 3: "written (effects_since s (stop_recording joined close_ok s)) = audio_queue s"
    by (simp add: 4 written_append written_pop_write)
  have 5: "(write_thread (write_worker_step True t) = Some Exited)
                 = (should_stop t \<and> audio_queue t = [])" if "write_thread t = Some Alive" for t
    using that by (auto simp: write_worker_step_def Let_def split: list.splits)
  from 1 2 3 4 5 show ?thesis by blast
qed


theorem clean_stop_drains_queue_witness:
  "write_thread (stop_recording [True, True, True] True busy_sink) = Some Exited
   \<and> audio_queue (stop_recording [True, True, True] True busy_sink) = []
   \<and> written (effects_since busy_sink (stop_recording [True, True, True] True busy_sink)) =
       [Mono [1], Mono [2]]
   \<and> effects_since busy_sink (stop_recording [True, True, True] True busy_sink) =
       [Print ''Stopping recording...'', Popped (Mono [1]), Written (Mono [1]),
        Popped (Mono [2]), Written (Mono [2]), Closed ''take.wav'',
        Print ''Recording saved: take.wav'']
   \<and> write_thread (write_worker_step True busy_sink) \<noteq> Some Exited"
proof -
  have r: "is_recording busy_sink"
    and a: "write_thread busy_sink = Some Alive"
    and f: "output_file busy_sink = Some ''take.wav''"
    and q: "audio_queue busy_sink = [Mono [1], Mono [2]]"
    and n: "\<not> should_stop busy_sink"
    by (simp_all add: busy_sink_def)
  have j: "\<forall>ok \<in> set [True, True, True]. ok"
    by simp
  have l: "length (audio_queue busy_sink) < length [True, True, True]"
    by (simp add: q)
  note c = clean_stop_drains_queue [OF r a f j l, of True]
  from c have 1: "write_thread (stop_recording [True, True, True] True busy_sink) = Some Exited"
    by blast
  from c have 2: "audio_queue (stop_recording [True, True, True] True busy_sink) = []"
    by blast
  from c have "written (effects_since busy_sink (stop_recording [True, True, True] True busy_sink)) =
      audio_queue busy_sink"
    by blast
  then have 3: "written (effects_since busy_sink (stop_recording [True, True, True] True busy_sink)) =
      [Mono [1], Mono [2]]"
    by (simp add: q)
  from c have "effects_since busy_sink (stop_recording [True, True, True] True busy_sink) =
      [Print ''Stopping recording...''] @ pop_write (audio_queue busy_sink) @
      (if True then [Closed ''take.wav'', Print (''Recording saved: '' @ ''take.wav'')]
       else [Print ''Error closing file''])"
    by blast
  then have 4: "effects_since busy_sink (stop_recording [True, True, True] True busy_sink) =
       [Print ''Stopping recording...'', Popped (Mono [1]), Written (Mono [1]),
        Popped (Mono [2]), Written (Mono [2]), Closed ''take.wav'',
        Print ''Recording saved: take.wav'']"
    by (simp add: q)
  from c a have "(write_thread (write_worker_step True busy_sink) = Some Exited)
      = (should_stop busy_sink \<and> audio_queue busy_sink = [])"
    by blast
  then have 5: "write_thread (write_worker_step True busy_sink) \<noteq> Some Exited"
    by (simp add: n)
  from 1 2 3 4 5 show ?thesis by blast
qed

section \<open>The order of the buffers of a capture session\<close>

lemma session_invI:
  assumes "effects t = base @ es" and "popped es @ audio_queue t = pushed es"
      and "prefix (written es) (popped es)"
      and "write_thread t = Some Alive \<and> output_file t \<noteq> None \<longrightarrow> written es = popped es"
  shows "session_inv base t"
  using assms by (simp add: session_inv_def)

lemma session_invE:
  assumes "session_inv base t"
  obtains es where "effects t = base @ es" and "popped es @ audio_queue t = pushed es"
      and "prefix (written es) (popped es)"
      and "write_thread t = Some Alive \<and> output_file t \<noteq> None \<longrightarrow> written es = popped es"
  using assms by (auto simp: session_inv_def Let_def)

lemma session_inv_quiet:
  assumes "session_inv base t" and "effects t' = effects t @ es'"
      and "pushed es' = []" and "popped es' = []" and "written es' = []"
      and "audio_queue t' = audio_queue t" and "write_thread t' = write_thread t"
      and "output_file t' = output_file t \<or> output_file t' = None"
  shows "session_inv base t'"
proof -
  from assms(1) obtain es where es: "effects t = base @ es"
      "popped es @ audio_queue t = pushed es" "prefix (written es) (popped es)"
      "write_thread t = Some Alive \<and> output_file t \<noteq> None \<longrightarrow> written es = popped es"
    by (rule session_invE)
  show ?thesis
  proof (rule session_invI [where es = "es @ es'"])
    show "effects t' = base @ es @ es'" using assms(2) es(1) by simp
    show "popped (es @ es') @ audio_queue t' = pushed (es @ es')"
      using es(2) assms by (simp add: popped_append pushed_append)
    show "prefix (written (es @ es')) (popped (es @ es'))"
      using es(3) assms by (simp add: popped_append written_append)
    show "write_thread t' = Some Alive \<and> output_file t' \<noteq> None \<longrightarrow>
            written (es @ es') = popped (es @ es')"
      using es(4) assms by (auto simp: popped_append written_append)
  qed
qed

lemma session_inv_callback:
  assumes "session_inv base t"
  shows "session_inv base (process_callback_sink arrays t)"
proof (cases "is_recording t \<and> \<not> isl (read_input_ports (sink_channels t) arrays)
              \<and> length (audio_queue t) < maxsize")
  case True
  then obtain buf where buf: "read_input_ports (sink_channels t) arrays = Inr buf"
    by (cases "read_input_ports (sink_channels t) arrays") auto
  from True buf have pc: "process_callback_sink arrays t =
      t\<lparr>audio_queue := audio_queue t @ [buf], effects := effects t @ [Pushed buf]\<rparr>"
    by (simp add: process_callback_sink_def)
  from assms obtain es where es: "effects t = base @ es"
      "popped es @ audio_queue t = pushed es" "prefix (written es) (popped es)"
      "write_thread t = Some Alive \<and> output_file t \<noteq> None \<longrightarrow> written es = popped es"
    by (rule session_invE)
  show ?thesis
    unfolding pc
  proof (rule session_invI [where es = "es @ [Pushed buf]"])
    show "popped (es @ [Pushed buf]) @ audio_queue (t\<lparr>audio_queue := audio_queue t @ [buf],
              effects := effects t @ [Pushed buf]\<rparr>) = pushed (es @ [Pushed buf])"
      using es(2) by (simp add: popped_append pushed_append flip: append_assoc)
  qed (use es in \<open>simp_all add: popped_append written_append\<close>)
next
  case False
  then consider "\<not> is_recording t"
    | "is_recording t" "isl (read_input_ports (sink_channels t) arrays)"
    | "is_recording t" "\<not> isl (read_input_ports (sink_channels t) arrays)"
      "maxsize \<le> length (audio_queue t)"
    by fastforce
  then show ?thesis
  proof cases
    case 1
    then show ?thesis using assms by (simp add: process_callback_sink_def)
  next
    case 2
    show ?thesis
      by (rule session_inv_quiet [OF assms, where es' = "[Print ''Error in process callback'']"])
         (use 2 in \<open>auto simp: process_callback_sink_def split: sum.splits\<close>)
  next
    case 3
    show ?thesis
      by (rule session_inv_quiet [OF assms,
             where es' = "[Print ''Warning: Audio buffer full, dropping frames'']"])
         (use 3 in \<open>auto simp: process_callback_sink_def split: sum.splits\<close>)
  qed
qed

lemma session_inv_step:
  assumes "session_inv base t"
  shows "session_inv base (write_worker_step ok t)"
proof (cases "write_thread t = Some Alive \<and> audio_queue t \<noteq> []")
  case False
  then have "write_worker_step ok t = t \<or> write_worker_step ok t = t\<lparr>write_thread := Some Exited\<rparr>"
    by (auto simp: write_worker_step_def split: list.splits)
  then show ?thesis
  proof
    assume "write_worker_step ok t = t"
    then show ?thesis using assms by simp
  next
    assume e: "write_worker_step ok t = t\<lparr>write_thread := Some Exited\<rparr>"
    from assms obtain es where es: "effects t = base @ es"
      "popped es @ audio_queue t = pushed es" "prefix (written es) (popped es)"
      by (rule session_invE)
    show ?thesis
      unfolding e by (rule session_invI [where es = es]) (use es in simp_all)
  qed
next
  case True
  then obtain b q where q: "audio_queue t = b # q"
    by (cases "audio_queue t") auto
  from assms obtain es where es: "effects t = base @ es"
      "popped es @ audio_queue t = pushed es" "prefix (written es) (popped es)"
      "write_thread t = Some Alive \<and> output_file t \<noteq> None \<longrightarrow> written es = popped es"
    by (rule session_invE)
  consider (good) "output_file t \<noteq> None" "ok"
    | (bad) "output_file t \<noteq> None" "\<not> ok"
    | (shut) "output_file t = None"
    by blast
  then show ?thesis
  proof cases
    case good
    then have st: "write_worker_step ok t =
        t\<lparr>audio_queue := q, effects := effects t @ [Popped b, Written b]\<rparr>"
      using True q by (simp add: write_worker_step_def)
    from es(4) True good have eq: "written es = popped es" by simp
    show ?thesis
      unfolding st
      by (rule session_invI [where es = "es @ [Popped b, Written b]"])
         (use es q eq in \<open>simp_all add: popped_append written_append pushed_append\<close>)
  next
    case bad
    then have st: "write_worker_step ok t =
        t\<lparr>audio_queue := q, write_thread := Some Exited,
          effects := effects t @ [Popped b, Print ''Error writing audio'']\<rparr>"
      using True q by (simp add: write_worker_step_def)
    show ?thesis
      unfolding st
      by (rule session_invI [where es = "es @ [Popped b, Print ''Error writing audio'']"])
         (use es q in \<open>simp_all add: popped_append written_append pushed_append prefix_prefix\<close>)
  next
    case shut
    then have st: "write_worker_step ok t =
        t\<lparr>audio_queue := q, effects := effects t @ [Popped b]\<rparr>"
      using True q by (simp add: write_worker_step_def)
    show ?thesis
      unfolding st
      by (rule session_invI [where es = "es @ [Popped b]"])
         (use es q shut in \<open>simp_all add: popped_append written_append pushed_append prefix_prefix\<close>)
  qed
qed

lemma session_inv_run:
  "session_inv base t \<Longrightarrow> session_inv base (run_capture evs t)"
proof (induction evs arbitrary: t)
  case Nil
  then show ?case by simp
next
  case (Cons ev evs)
  then show ?case
    by (cases ev) (simp_all add: session_inv_callback session_inv_step)
qed

lemma session_inv_worker:
  "session_inv base t \<Longrightarrow> session_inv base (write_worker passes t)"
  by (induction passes arbitrary: t) (simp_all add: session_inv_step)

lemma session_inv_stop:
  assumes "session_inv base t"
  shows "session_inv base (stop_recording joined close_ok t)"
proof (cases "is_recording t")
  case False
  then show ?thesis using assms by (simp add: stop_recording_def)
next
  case True
  let ?s1 = "t\<lparr>effects := effects t @ [Print ''Stopping recording...''],
               is_recording := False, should_stop := True\<rparr>"
  let ?s2 = "if write_thread ?s1 = Some Alive then write_worker joined ?s1 else ?s1"
  have 1: "session_inv base ?s1"
    by (rule session_inv_quiet [OF assms, where es' = "[Print ''Stopping recording...'']"])
       simp_all
  then have 2: "session_inv base ?s2"
    by (simp add: session_inv_worker)
  show ?thesis
  proof (cases "output_file ?s2")
    case None
    then have "stop_recording joined close_ok t = ?s2"
      using True by (simp add: stop_recording_def Let_def)
    then show ?thesis using 2 by simp
  next
    case (Some f)
    let ?cl = "if close_ok then [Closed f, Print (''Recording saved: '' @ f)]
               else [Print ''Error closing file'']"
    have e: "stop_recording joined close_ok t =
               ?s2\<lparr>effects := effects ?s2 @ ?cl, output_file := None\<rparr>"
      using True Some by (simp add: stop_recording_def Let_def)
    show ?thesis
      unfolding e
      by (rule session_inv_quiet [OF 2, where es' = ?cl]) simp_all
  qed
qed

lemma start_recording_success:
  assumes "start_recording filename env s0 = Inr (True, s)"
  shows "audio_queue s = []" and "write_thread s = Some Alive" and "is_recording s"
    and "\<not> should_stop s" and "\<exists>f. output_file s = Some f"
  using assms
  by (auto simp: start_recording_def Let_def clear_queue_empty split: if_splits)

lemma session_inv_start: "audio_queue s = [] \<Longrightarrow> session_inv (effects s) s"
  by (rule session_invI [where es = "[]"]) simp_all

lemma session_inv_session:
  assumes "audio_queue s = []"
  shows "session_inv (effects s) (capture_session evs joined close_ok later s)"
  unfolding capture_session_def
  by (intro session_inv_worker session_inv_stop session_inv_run session_inv_start assms)

lemma recording_callback:
  assumes "write_thread t = Some Alive \<and> output_file t = Some f \<and> is_recording t \<and> \<not> should_stop t"
  shows "write_thread (process_callback_sink arrays t) = Some Alive
         \<and> output_file (process_callback_sink arrays t) = Some f
         \<and> is_recording (process_callback_sink arrays t)
         \<and> \<not> should_stop (process_callback_sink arrays t)"
  using assms by (simp add: process_callback_sink_def split: sum.splits)

lemma recording_step:
  assumes "write_thread t = Some Alive \<and> output_file t = Some f \<and> is_recording t \<and> \<not> should_stop t"
  shows "write_thread (write_worker_step True t) = Some Alive
         \<and> output_file (write_worker_step True t) = Some f
         \<and> is_recording (write_worker_step True t)
         \<and> \<not> should_stop (write_worker_step True t)"
  using assms by (simp add: write_worker_step_def Let_def split: list.splits)

lemma recording_run:
  assumes "write_thread t = Some Alive \<and> output_file t = Some f \<and> is_recording t \<and> \<not> should_stop t"
      and "writes_ok evs"
  shows "write_thread (run_capture evs t) = Some Alive
         \<and> output_file (run_capture evs t) = Some f
         \<and> is_recording (run_capture evs t)
         \<and> \<not> should_stop (run_capture evs t)"
  using assms
proof (induction evs arbitrary: t)
  case Nil
  then show ?case by simp
next
  case (Cons ev evs)
  show ?case
  proof (cases ev)
    case (Process arrays)
    with Cons.prems have "writes_ok evs" by simp
    from Cons.IH [OF recording_callback [OF Cons.prems(1)] this] show ?thesis
      by (simp add: Process)
  next
    case (WorkerPass ok)
    with Cons.prems have ok: "ok" and rest: "writes_ok evs" by simp_all
    from Cons.IH [OF recording_step [OF Cons.prems(1)] rest] show ?thesis
      by (simp add: WorkerPass ok)
  qed
qed

lemma clean_session_effects:
  assumes q: "audio_queue s = []" and a: "write_thread s = Some Alive"
      and f: "output_file s = Some f" and r: "is_recording s" and n: "\<not> should_stop s"
      and w: "writes_ok evs" and j: "\<forall>ok \<in> set joined. ok"
      and l: "length (audio_queue (run_capture evs s)) < length joined"
  shows "written (effects_since s (capture_session evs joined close_ok later s)) =
           pushed (effects_since s (capture_session evs joined close_ok later s))
         \<and> popped (effects_since s (capture_session evs joined close_ok later s)) =
           pushed (effects_since s (capture_session evs joined close_ok later s))
         \<and> audio_queue (capture_session evs joined close_ok later s) = []"
proof -
  let ?t = "run_capture evs s"
  from a f r n have "write_thread s = Some Alive \<and> output_file s = Some f \<and> is_recording s \<and> \<not> should_stop s"
    by simp
  from recording_run [OF this w]
  have ta: "write_thread ?t = Some Alive" and tf: "output_file ?t = Some f"
    and tr: "is_recording ?t" by simp_all
  have "session_inv (effects s) ?t"
    by (intro session_inv_run session_inv_start q)
  then obtain es where es: "effects ?t = effects s @ es"
      "popped es @ audio_queue ?t = pushed es"
      "write_thread ?t = Some Alive \<and> output_file ?t \<noteq> None \<longrightarrow> written es = popped es"
    by (rule session_invE)
  from es(3) ta tf have wp: "written es = popped es" by simp
  let ?cl = "if close_ok then [Closed f, Print (''Recording saved: '' @ f)]
             else [Print ''Error closing file'']"
  note d = stop_recording_drains [OF tr ta tf j l, of close_ok]
  have ex: "write_thread (stop_recording joined close_ok ?t) \<noteq> Some Alive"
    by (simp add: d)
  have cs: "capture_session evs joined close_ok later s = stop_recording joined close_ok ?t"
    unfolding capture_session_def by (rule write_worker_not_alive [OF ex])
  have eff: "effects_since s (capture_session evs joined close_ok later s) =
               es @ [Print ''Stopping recording...''] @ pop_write (audio_queue ?t) @ ?cl"
    by (simp add: cs d effects_since_def es(1))
  have 1: "written (effects_since s (capture_session evs joined close_ok later s)) =
             popped es @ audio_queue ?t"
    by (simp add: eff written_append written_pop_write wp)
  have 2: "popped (effects_since s (capture_session evs joined close_ok later s)) =
             popped es @ audio_queue ?t"
    by (simp add: eff popped_append popped_pop_write)
  have 3: "pushed (effects_since s (capture_session evs joined close_ok later s)) = pushed es"
    by (simp add: eff pushed_append pushed_pop_write)
  have 4: "audio_queue (capture_session evs joined close_ok later s) = []"
    by (simp add: cs d)
  from 1 2 3 4 es(2) show ?thesis by simp
qed

text \<open>
  C2, as stated, fails: in the session that starts on a new sink, captures one buffer and
  meets a failure of its write, the buffer is popped and nothing is written.
\<close>

theorem failed_write_popped_not_written:
  "start_recording (Some ''take.wav'') good_env (new_sink 1 48000) = Inr (True, started_sink)
   \<and> popped (effects_since started_sink
        (capture_session [Process [[1]], WorkerPass False] [] True [] started_sink)) = [Mono [1]]
   \<and> written (effects_since started_sink
        (capture_session [Process [[1]], WorkerPass False] [] True [] started_sink)) = []"
  by (simp add: start_recording_def good_env_def new_sink_def started_sink_def
        capture_session_def process_callback_sink_def read_input_ports_def maxsize_def
        write_worker_step_def stop_recording_def effects_since_def Let_def)

text \<open>
  C2, amended. For every capture session, the buffers written to the output file are a
  prefix of the buffers popped from the queue, and the buffers popped are, with those left
  in the queue, the buffers the callback queued: the same order, nothing twice, nothing
  reordered. When no write fails and \<open>stop_recording\<close> joins the writer thread, the three
  sequences are equal. A buffer popped when its write fails, or after the file has been
  closed, is not written.
\<close>

theorem capture_fifo:
  assumes "start_recording filename env s0 = Inr (True, s)"
  shows "prefix (written (effects_since s (capture_session evs joined close_ok later s)))
                (popped (effects_since s (capture_session evs joined close_ok later s)))
         \<and> popped (effects_since s (capture_session evs joined close_ok later s))
             @ audio_queue (capture_session evs joined close_ok later s)
           = pushed (effects_since s (capture_session evs joined close_ok later s))
         \<and> (writes_ok evs \<and> (\<forall>ok \<in> set joined. ok)
              \<and> length (audio_queue (run_capture evs s)) < length joined \<longrightarrow>
            written (effects_since s (capture_session evs joined close_ok later s))
              = popped (effects_since s (capture_session evs joined close_ok later s))
            \<and> popped (effects_since s (capture_session evs joined close_ok later s))
              = pushed (effects_since s (capture_session evs joined close_ok later s)))"
proof -
  note st = start_recording_success [OF assms]
  let ?s' = "capture_session evs joined close_ok later s"
  have "session_inv (effects s) ?s'"
    by (rule session_inv_session [OF st(1)])
  then obtain es where es: "effects ?s' = effects s @ es"
      "popped es @ audio_queue ?s' = pushed es" "prefix (written es) (popped es)"
    by (rule session_invE)
  have e: "effects_since s ?s' = es"
    by (simp add: effects_since_def es(1))
  from st(5) obtain f where f: "output_file s = Some f" by blast
  have clean: "written (effects_since s ?s') = popped (effects_since s ?s')
               \<and> popped (effects_since s ?s') = pushed (effects_since s ?s')"
    if "writes_ok evs" "\<forall>ok \<in> set joined. ok"
       "length (audio_queue (run_capture evs s)) < length joined"
    using clean_session_effects [OF st(1) st(2) f st(3) st(4) that, of close_ok later] by simp
  from es(2) es(3) e clean show ?thesis by auto
qed

theorem capture_fifo_witness:
  "start_recording (Some ''take.wav'') good_env (new_sink 1 48000) = Inr (True, started_sink)
   \<and> writes_ok [Process [[1]], Process [[2]], WorkerPass True]
   \<and> pushed (effects_since started_sink
        (capture_session [Process [[1]], Process [[2]], WorkerPass True] [True, True] True []
           started_sink)) = [Mono [1], Mono [2]]
   \<and> popped (effects_since started_sink
        (capture_session [Process [[1]], Process [[2]], WorkerPass True] [True, True] True []
           started_sink)) = [Mono [1], Mono [2]]
   \<and> written (effects_since started_sink
        (capture_session [Process [[1]], Process [[2]], WorkerPass True] [True, True] True []
           started_sink)) = [Mono [1], Mono [2]]"
proof -
  let ?evs = "[Process [[1]], Process [[2]], WorkerPass True]"
  let ?s' = "capture_session ?evs [True, True] True [] started_sink"
  have st: "start_recording (Some ''take.wav'') good_env (new_sink 1 48000) =
              Inr (True, started_sink)"
    by (simp add: start_recording_def good_env_def new_sink_def started_sink_def Let_def)
  have w: "writes_ok ?evs"
    by simp
  have j: "\<forall>ok \<in> set [True, True]. ok"
    by simp
  have run: "audio_queue (run_capture ?evs started_sink) = [Mono [2]]"
    by (simp add: started_sink_def process_callback_sink_def read_input_ports_def maxsize_def
          write_worker_step_def)
  have l: "length (audio_queue (run_capture ?evs started_sink)) < length [True, True]"
    unfolding run by simp
  have p: "pushed (effects_since started_sink ?s') = [Mono [1], Mono [2]]"
    by (simp add: started_sink_def capture_session_def process_callback_sink_def
          read_input_ports_def maxsize_def write_worker_step_def stop_recording_def
          effects_since_def)
  from capture_fifo [OF st, of ?evs "[True, True]" True "[]"] w j l
  have "written (effects_since started_sink ?s') = popped (effects_since started_sink ?s')
        \<and> popped (effects_since started_sink ?s') = pushed (effects_since started_sink ?s')"
    by blast
  with st w p show ?thesis by simp
qed

end
